theory Spec2Isabelle
  imports Main
begin

section \<open>Data model shared by the two programs\<close>

text \<open>
  The repository holds two programs with the same board model: the networked terminal
  (\<^verbatim>\<open>gobletgame.go\<close>), which publishes every state to a message bus, and a standalone
  terminal (the second \<^verbatim>\<open>package main\<close> file), which keeps a per-player piece count.
  Go's \<^verbatim>\<open>int\<close> is modelled by \<^typ>\<open>int\<close>; the two places where the code computes with
  it (\<^verbatim>\<open>3 - playerTurn\<close> and \<^verbatim>\<open>pieceCount[..][..]++\<close>) carry the 64-bit wrap-around.
\<close>

definition wrap64 :: "int \<Rightarrow> int" where
  "wrap64 x = (x + 2 ^ 63) mod 2 ^ 64 - 2 ^ 63"

record Gobblet =
  Size :: int
  Owner :: int

type_synonym Stack = "Gobblet list"

text \<open>
  \<^verbatim>\<open>type Board [3][3]Stack\<close>: a list of three rows of three stacks. A stack is a Go slice;
  its top is the last element.
\<close>

type_synonym Board = "Stack list list"

definition wf_board :: "Board \<Rightarrow> bool" where
  "wf_board b = (length b = 3 \<and> list_all (\<lambda>row. length row = 3) b)"

definition empty_board :: Board where
  "empty_board = [[[], [], []], [[], [], []], [[], [], []]]"

text \<open>\<^verbatim>\<open>board[row][col]\<close>, read and written; every use in the code follows a bounds check.\<close>

definition cell :: "Board \<Rightarrow> int \<Rightarrow> int \<Rightarrow> Stack" where
  "cell b row col = b ! nat row ! nat col"

definition set_cell :: "Board \<Rightarrow> int \<Rightarrow> int \<Rightarrow> Stack \<Rightarrow> Board" where
  "set_cell b row col st = b[nat row := (b ! nat row)[nat col := st]]"

section \<open>Rule engine: \<^verbatim>\<open>checkLine\<close> and \<^verbatim>\<open>checkWin\<close> (identical in both programs)\<close>

definition checkLine :: "Stack \<Rightarrow> Stack \<Rightarrow> Stack \<Rightarrow> int" where
  "checkLine a b c =
     (if 0 < length a \<and> 0 < length b \<and> 0 < length c then
        (if Owner (last a) = Owner (last b) \<and> Owner (last b) = Owner (last c)
         then Owner (last a) else 0)
      else 0)"

text \<open>
  The loop \<^verbatim>\<open>for i := 0; i < 3; i++\<close> of \<^verbatim>\<open>checkWin\<close>, with the code after the loop (the
  two diagonals and \<^verbatim>\<open>return 0\<close>) in the branch where the loop condition fails.
\<close>

function checkWin_from :: "Board \<Rightarrow> int \<Rightarrow> int" where
  "checkWin_from b i =
     (if i < 3 then
        (let winner = checkLine (cell b i 0) (cell b i 1) (cell b i 2) in
         if winner \<noteq> 0 then winner
         else
           (let winner = checkLine (cell b 0 i) (cell b 1 i) (cell b 2 i) in
            if winner \<noteq> 0 then winner
            else checkWin_from b (i + 1)))
      else
        (let winner = checkLine (cell b 0 0) (cell b 1 1) (cell b 2 2) in
         if winner \<noteq> 0 then winner
         else
           (let winner = checkLine (cell b 0 2) (cell b 1 1) (cell b 2 0) in
            if winner \<noteq> 0 then winner
            else 0)))"
  by pat_completeness auto
termination
  by (relation "measure (\<lambda>(b, i). nat (3 - i))") auto

declare checkWin_from.simps [simp del]

definition checkWin :: "Board \<Rightarrow> int" where
  "checkWin b = checkWin_from b 0"

section \<open>The networked terminal (\<^verbatim>\<open>gobletgame.go\<close>)\<close>

record GameState =
  Board :: Board
  PlayerTurn :: int
  Winner :: int

text \<open>
  The globals \<^verbatim>\<open>board\<close> and \<^verbatim>\<open>playerTurn\<close>, and the message bus seen from this process:
  \<^verbatim>\<open>published\<close> lists the snapshots handed to \<^verbatim>\<open>mqttClient.Publish\<close> on the game topic
  (retained, QoS 1), oldest first.
\<close>

record net_state =
  board :: Board
  playerTurn :: int
  published :: "GameState list"

definition init_net :: net_state where
  "init_net = \<lparr>board = empty_board, playerTurn = 1, published = []\<rparr>"

definition saveGameState :: "net_state \<Rightarrow> net_state" where
  "saveGameState s =
     (let winner = checkWin (board s);
          state = \<lparr>Board = board s, PlayerTurn = playerTurn s, Winner = winner\<rparr>
      in s\<lparr>published := published s @ [state]\<rparr>)"

definition publishMove :: "net_state \<Rightarrow> net_state" where
  "publishMove s =
     (let winner = checkWin (board s);
          state = \<lparr>Board = board s, PlayerTurn = playerTurn s, Winner = winner\<rparr>
      in s\<lparr>published := published s @ [state]\<rparr>)"

definition placePiece :: "int \<Rightarrow> int \<Rightarrow> int \<Rightarrow> net_state \<Rightarrow> bool \<times> net_state" where
  "placePiece row col sz s =
     (if sz < 1 \<or> sz > 3 then (False, s)
      else if row < 0 \<or> row \<ge> 3 \<or> col < 0 \<or> col \<ge> 3 then (False, s)
      else if 0 < length (cell (board s) row col)
              \<and> Size (last (cell (board s) row col)) \<ge> sz then (False, s)
      else
        (let s1 = s\<lparr>board := set_cell (board s) row col
                      (cell (board s) row col @ [\<lparr>Size = sz, Owner = playerTurn s\<rparr>])\<rparr>;
             s2 = saveGameState s1;
             s3 = publishMove s2;
             winner = checkWin (board s3)
         in if winner \<noteq> 0 then (True, s3)
            else
              (let s4 = s3\<lparr>playerTurn := wrap64 (3 - playerTurn s3)\<rparr>;
                   s5 = publishMove s4
               in (True, s5))))"

definition movePiece :: "int \<Rightarrow> int \<Rightarrow> int \<Rightarrow> int \<Rightarrow> net_state \<Rightarrow> bool \<times> net_state" where
  "movePiece fromRow fromCol toRow toCol s =
     (if fromRow < 0 \<or> fromRow \<ge> 3 \<or> fromCol < 0 \<or> fromCol \<ge> 3
         \<or> toRow < 0 \<or> toRow \<ge> 3 \<or> toCol < 0 \<or> toCol \<ge> 3 then (False, s)
      else if length (cell (board s) fromRow fromCol) = 0 then (False, s)
      else
        (let top = last (cell (board s) fromRow fromCol) in
         if Owner top \<noteq> playerTurn s then (False, s)
         else if 0 < length (cell (board s) toRow toCol)
                 \<and> Size (last (cell (board s) toRow toCol)) \<ge> Size top then (False, s)
         else
           (let b1 = set_cell (board s) fromRow fromCol (butlast (cell (board s) fromRow fromCol));
                b2 = set_cell b1 toRow toCol (cell b1 toRow toCol @ [top]);
                s1 = s\<lparr>board := b2\<rparr>;
                s2 = saveGameState s1;
                s3 = publishMove s2;
                winner = checkWin (board s3)
            in if winner \<noteq> 0 then (True, s3)
               else
                 (let s4 = s3\<lparr>playerTurn := wrap64 (3 - playerTurn s3)\<rparr>;
                      s5 = publishMove s4
                  in (True, s5)))))"

section \<open>The standalone terminal (second \<^verbatim>\<open>package main\<close> file)\<close>

text \<open>
  \<^verbatim>\<open>pieceCount\<close> is a \<^verbatim>\<open>map[int]map[int]int\<close>. Reading a missing key gives the zero
  value (a nil inner map, then 0); writing through a missing outer key is Go's panic
  "assignment to entry in nil map".
\<close>

datatype error = NilMapWrite

type_synonym PieceCount = "int \<rightharpoonup> (int \<rightharpoonup> int)"

definition count_of :: "PieceCount \<Rightarrow> int \<Rightarrow> int \<Rightarrow> int" where
  "count_of pc p sz =
     (case pc p of None \<Rightarrow> 0
      | Some m \<Rightarrow> (case m sz of None \<Rightarrow> 0 | Some n \<Rightarrow> n))"

record sa_state =
  sa_board :: Board
  sa_playerTurn :: int
  pieceCount :: PieceCount

definition init_sa :: sa_state where
  "init_sa = \<lparr>sa_board = empty_board, sa_playerTurn = 1,
     pieceCount = [1 \<mapsto> [1 \<mapsto> 0, 2 \<mapsto> 0, 3 \<mapsto> 0], 2 \<mapsto> [1 \<mapsto> 0, 2 \<mapsto> 0, 3 \<mapsto> 0]]\<rparr>"

definition placePiece_sa :: "int \<Rightarrow> int \<Rightarrow> int \<Rightarrow> sa_state \<Rightarrow> error + bool \<times> sa_state" where
  "placePiece_sa row col sz s =
     (if row < 0 \<or> row \<ge> 3 \<or> col < 0 \<or> col \<ge> 3 then Inr (False, s)
      else if count_of (pieceCount s) (sa_playerTurn s) sz \<ge> 3 then Inr (False, s)
      else if 0 < length (cell (sa_board s) row col)
              \<and> Size (last (cell (sa_board s) row col)) \<ge> sz then Inr (False, s)
      else
        (let s1 = s\<lparr>sa_board := set_cell (sa_board s) row col
                      (cell (sa_board s) row col @ [\<lparr>Size = sz, Owner = sa_playerTurn s\<rparr>])\<rparr>
         in case pieceCount s1 (sa_playerTurn s1) of
              None \<Rightarrow> Inl NilMapWrite
            | Some m \<Rightarrow>
                Inr (True, s1\<lparr>pieceCount := (pieceCount s1)(sa_playerTurn s1 \<mapsto>
                       m(sz \<mapsto> wrap64 (count_of (pieceCount s1) (sa_playerTurn s1) sz + 1)))\<rparr>)))"

definition movePiece_sa :: "int \<Rightarrow> int \<Rightarrow> int \<Rightarrow> int \<Rightarrow> sa_state \<Rightarrow> bool \<times> sa_state" where
  "movePiece_sa fromRow fromCol toRow toCol s =
     (if fromRow < 0 \<or> fromRow \<ge> 3 \<or> fromCol < 0 \<or> fromCol \<ge> 3
         \<or> toRow < 0 \<or> toRow \<ge> 3 \<or> toCol < 0 \<or> toCol \<ge> 3 then (False, s)
      else if length (cell (sa_board s) fromRow fromCol) = 0 then (False, s)
      else
        (let top = last (cell (sa_board s) fromRow fromCol) in
         if Owner top \<noteq> sa_playerTurn s then (False, s)
         else if 0 < length (cell (sa_board s) toRow toCol)
                 \<and> Size (last (cell (sa_board s) toRow toCol)) \<ge> Size top then (False, s)
         else
           (let b1 = set_cell (sa_board s) fromRow fromCol
                       (butlast (cell (sa_board s) fromRow fromCol));
                b2 = set_cell b1 toRow toCol (cell b1 toRow toCol @ [top])
            in (True, s\<lparr>sa_board := b2\<rparr>))))"

text \<open>
  One iteration of the loop of \<^verbatim>\<open>main\<close>. The input is what the calls of \<^verbatim>\<open>fmt.Scan\<close>
  delivered: \<open>ScanError\<close> when one of them failed, \<open>Unknown a\<close> for an action other than
  1 and 2. The iteration ends with \<^verbatim>\<open>continue\<close> (\<open>Continue\<close>, also when it runs to the
  end of the body), with \<^verbatim>\<open>os.Exit(0)\<close> after a win (\<open>Exit\<close>) or with a panic.
\<close>

datatype input = ScanError | Place int int int | Move int int int int | Unknown int

datatype outcome = Continue sa_state | Exit int sa_state | Panic error

definition after_action :: "sa_state \<Rightarrow> outcome" where
  "after_action s =
     (let winner = checkWin (sa_board s) in
      if winner \<noteq> 0 then Exit winner s
      else Continue (s\<lparr>sa_playerTurn := wrap64 (3 - sa_playerTurn s)\<rparr>))"

fun main_iter :: "input \<Rightarrow> sa_state \<Rightarrow> outcome" where
  "main_iter ScanError s = Continue s"
| "main_iter (Place row col sz) s =
     (case placePiece_sa row col sz s of
        Inl e \<Rightarrow> Panic e
      | Inr (ok, s') \<Rightarrow> if \<not> ok then Continue s' else after_action s')"
| "main_iter (Move row col toRow toCol) s =
     (case movePiece_sa row col toRow toCol s of
        (ok, s') \<Rightarrow> if \<not> ok then Continue s' else after_action s')"
| "main_iter (Unknown a) s = Continue s"

section \<open>Runs of the programs\<close>

text \<open>
  The states the networked terminal reaches by local actions: from the initial values of
  the globals, \<^verbatim>\<open>main\<close> creates a fresh session with \<^verbatim>\<open>saveGameState()\<close> when the bus
  holds no retained snapshot; then come the calls of \<^verbatim>\<open>placePiece\<close> and \<^verbatim>\<open>movePiece\<close>. A
  snapshot received from the bus replaces board and turn wholesale and is not validated;
  it is outside these runs.
\<close>

inductive net_reachable :: "net_state \<Rightarrow> bool" where
  net_init: "net_reachable init_net"
| net_fresh: "net_reachable (saveGameState init_net)"
| net_place: "net_reachable s \<Longrightarrow> net_reachable (snd (placePiece row col sz s))"
| net_move: "net_reachable s \<Longrightarrow> net_reachable (snd (movePiece fromRow fromCol toRow toCol s))"

text \<open>The states of the standalone terminal after any number of loop iterations.\<close>

inductive sa_reachable :: "sa_state \<Rightarrow> bool" where
  sa_init: "sa_reachable init_sa"
| sa_continue: "sa_reachable t \<Longrightarrow> main_iter i t = Continue t' \<Longrightarrow> sa_reachable t'"
| sa_exit: "sa_reachable t \<Longrightarrow> main_iter i t = Exit w t' \<Longrightarrow> sa_reachable t'"

text \<open>Whether the action of a loop iteration was accepted (the call returned true).\<close>

fun sa_accepted :: "input \<Rightarrow> sa_state \<Rightarrow> bool" where
  "sa_accepted (Place row col sz) t =
     (case placePiece_sa row col sz t of Inl e \<Rightarrow> False | Inr (ok, t') \<Rightarrow> ok)"
| "sa_accepted (Move row col toRow toCol) t = fst (movePiece_sa row col toRow toCol t)"
| "sa_accepted i t = False"

section \<open>Notions of the specification\<close>

text \<open>
  The eight lines in the order \<^verbatim>\<open>checkWin\<close> examines them; a cell whose top piece
  belongs to a player; a line all of whose tops belong to a player.
\<close>

type_synonym line = "(int \<times> int) \<times> (int \<times> int) \<times> (int \<times> int)"

definition lines :: "line list" where
  "lines =
     [((0, 0), (0, 1), (0, 2)), ((0, 0), (1, 0), (2, 0)),
      ((1, 0), (1, 1), (1, 2)), ((0, 1), (1, 1), (2, 1)),
      ((2, 0), (2, 1), (2, 2)), ((0, 2), (1, 2), (2, 2)),
      ((0, 0), (1, 1), (2, 2)), ((0, 2), (1, 1), (2, 0))]"

fun top_owned :: "Board \<Rightarrow> int \<times> int \<Rightarrow> int \<Rightarrow> bool" where
  "top_owned b (r, c) p = (cell b r c \<noteq> [] \<and> Owner (last (cell b r c)) = p)"

fun line_owned :: "Board \<Rightarrow> line \<Rightarrow> int \<Rightarrow> bool" where
  "line_owned b (x, y, z) p = (top_owned b x p \<and> top_owned b y p \<and> top_owned b z p)"

fun line_winner :: "Board \<Rightarrow> line \<Rightarrow> int" where
  "line_winner b ((r1, c1), (r2, c2), (r3, c3)) =
     checkLine (cell b r1 c1) (cell b r2 c2) (cell b r3 c3)"

text \<open>The owner of the first line, in scan order, whose three tops share a non-zero owner.\<close>

definition first_line_winner :: "Board \<Rightarrow> int" where
  "first_line_winner b =
     (case find (\<lambda>l. line_winner b l \<noteq> 0) lines of None \<Rightarrow> 0 | Some l \<Rightarrow> line_winner b l)"

text \<open>What \<^verbatim>\<open>checkWin\<close> can see of a cell: whether it is empty, and who owns its top.\<close>

definition top_owner :: "Board \<Rightarrow> int \<Rightarrow> int \<Rightarrow> int option" where
  "top_owner b r c = (if cell b r c = [] then None else Some (Owner (last (cell b r c))))"

definition same_top_owners :: "Board \<Rightarrow> Board \<Rightarrow> bool" where
  "same_top_owners b b' =
     (\<forall>r \<in> {0, 1, 2}. \<forall>c \<in> {0, 1, 2}. top_owner b r c = top_owner b' r c)"

text \<open>A board with every piece's size replaced, ownership and positions kept.\<close>

definition resize :: "(Gobblet \<Rightarrow> int) \<Rightarrow> Board \<Rightarrow> Board" where
  "resize f b = map (map (map (\<lambda>g. g\<lparr>Size := f g\<rparr>))) b"

text \<open>The checks of a placement, named as the specification names them.\<close>

definition out_of_bounds :: "int \<Rightarrow> int \<Rightarrow> bool" where
  "out_of_bounds row col = (row < 0 \<or> row \<ge> 3 \<or> col < 0 \<or> col \<ge> 3)"

definition top_blocks :: "Board \<Rightarrow> int \<Rightarrow> int \<Rightarrow> int \<Rightarrow> bool" where
  "top_blocks b row col sz = (cell b row col \<noteq> [] \<and> Size (last (cell b row col)) \<ge> sz)"

text \<open>The placement budget: three pieces of each size per player, less those placed.\<close>

definition budget :: "PieceCount \<Rightarrow> int \<Rightarrow> int \<Rightarrow> int" where
  "budget pc p sz = 3 - count_of pc p sz"

text \<open>All pieces of a board, and the boards whose pieces belong to player 1 or 2.\<close>

definition pieces :: "Board \<Rightarrow> Gobblet list" where
  "pieces b = concat (concat b)"

definition owners_ok :: "Board \<Rightarrow> bool" where
  "owners_ok b = list_all (\<lambda>g. Owner g = 1 \<or> Owner g = 2) (pieces b)"

section \<open>Example states\<close>

text \<open>
  On \<open>ex_net\<close> and \<open>ex_sa\<close> player 1 is to move and owns a medium piece
  on cell (0,0).
\<close>

definition ex_board :: Board where
  "ex_board = [[[\<lparr>Size = 2, Owner = 1\<rparr>], [], []], [[], [], []], [[], [], []]]"

definition ex_net :: net_state where
  "ex_net = \<lparr>board = ex_board, playerTurn = 1, published = []\<rparr>"

definition ex_sa :: sa_state where
  "ex_sa = \<lparr>sa_board = ex_board, sa_playerTurn = 1,
     pieceCount = [1 \<mapsto> [1 \<mapsto> 0, 2 \<mapsto> 1, 3 \<mapsto> 0], 2 \<mapsto> [1 \<mapsto> 0, 2 \<mapsto> 0, 3 \<mapsto> 0]]\<rparr>"

definition moved_top :: "Board \<Rightarrow> int \<Rightarrow> int \<Rightarrow> int \<Rightarrow> int \<Rightarrow> Board \<Rightarrow> bool" where
  "moved_top b fr fc tr tc b' =
     ((fr, fc) \<noteq> (tr, tc) \<and> cell b fr fc \<noteq> [] \<and>
      cell b' fr fc = butlast (cell b fr fc) \<and>
      cell b' tr tc = cell b tr tc @ [last (cell b fr fc)] \<and>
      (\<forall>r \<in> {0, 1, 2}. \<forall>c \<in> {0, 1, 2}.
         (r, c) \<noteq> (fr, fc) \<and> (r, c) \<noteq> (tr, tc) \<longrightarrow> cell b' r c = cell b r c))"

definition ex_net_moved :: net_state where
  "ex_net_moved = \<lparr>board = [[[], [], []], [[], [\<lparr>Size = 2, Owner = 1\<rparr>], []], [[], [], []]],
     playerTurn = 2,
     published =
       [\<lparr>Board = [[[], [], []], [[], [\<lparr>Size = 2, Owner = 1\<rparr>], []], [[], [], []]],
          PlayerTurn = 1, Winner = 0\<rparr>,
        \<lparr>Board = [[[], [], []], [[], [\<lparr>Size = 2, Owner = 1\<rparr>], []], [[], [], []]],
          PlayerTurn = 1, Winner = 0\<rparr>,
        \<lparr>Board = [[[], [], []], [[], [\<lparr>Size = 2, Owner = 1\<rparr>], []], [[], [], []]],
          PlayerTurn = 2, Winner = 0\<rparr>]\<rparr>"

definition ex_net_placed :: net_state where
  "ex_net_placed = \<lparr>board = [[[\<lparr>Size = 2, Owner = 1\<rparr>], [], []], [[], [], []], [[], [], [\<lparr>Size = 3, Owner = 1\<rparr>]]],
     playerTurn = 2,
     published =
       [\<lparr>Board = [[[\<lparr>Size = 2, Owner = 1\<rparr>], [], []], [[], [], []], [[], [], [\<lparr>Size = 3, Owner = 1\<rparr>]]],
          PlayerTurn = 1, Winner = 0\<rparr>,
        \<lparr>Board = [[[\<lparr>Size = 2, Owner = 1\<rparr>], [], []], [[], [], []], [[], [], [\<lparr>Size = 3, Owner = 1\<rparr>]]],
          PlayerTurn = 1, Winner = 0\<rparr>,
        \<lparr>Board = [[[\<lparr>Size = 2, Owner = 1\<rparr>], [], []], [[], [], []], [[], [], [\<lparr>Size = 3, Owner = 1\<rparr>]]],
          PlayerTurn = 2, Winner = 0\<rparr>]\<rparr>"

definition placed_top :: "Board \<Rightarrow> int \<Rightarrow> int \<Rightarrow> Gobblet \<Rightarrow> Board \<Rightarrow> bool" where
  "placed_top b row col g b' =
     (cell b' row col = cell b row col @ [g] \<and>
      (\<forall>r \<in> {0, 1, 2}. \<forall>c \<in> {0, 1, 2}. (r, c) \<noteq> (row, col) \<longrightarrow> cell b' r c = cell b r c))"

definition ex_win_board :: Board where
  "ex_win_board =
     [[[\<lparr>Size = 1, Owner = 1\<rparr>], [\<lparr>Size = 1, Owner = 1\<rparr>], []],
      [[\<lparr>Size = 1, Owner = 2\<rparr>], [\<lparr>Size = 1, Owner = 2\<rparr>], []],
      [[], [], []]]"

definition ex_won_board :: Board where
  "ex_won_board =
     [[[\<lparr>Size = 1, Owner = 1\<rparr>], [\<lparr>Size = 1, Owner = 1\<rparr>], [\<lparr>Size = 1, Owner = 1\<rparr>]],
      [[\<lparr>Size = 1, Owner = 2\<rparr>], [\<lparr>Size = 1, Owner = 2\<rparr>], []],
      [[], [], []]]"

definition ex_win_net :: net_state where
  "ex_win_net = \<lparr>board = ex_win_board, playerTurn = 1, published = []\<rparr>"

definition ex_won_net :: net_state where
  "ex_won_net = \<lparr>board = ex_won_board, playerTurn = 1,
     published = [\<lparr>Board = ex_won_board, PlayerTurn = 1, Winner = 1\<rparr>,
                  \<lparr>Board = ex_won_board, PlayerTurn = 1, Winner = 1\<rparr>]\<rparr>"

definition ex_win_sa :: sa_state where
  "ex_win_sa = \<lparr>sa_board = ex_win_board, sa_playerTurn = 1,
     pieceCount = [1 \<mapsto> [1 \<mapsto> 2, 2 \<mapsto> 0, 3 \<mapsto> 0], 2 \<mapsto> [1 \<mapsto> 2, 2 \<mapsto> 0, 3 \<mapsto> 0]]\<rparr>"

definition ex_won_sa :: sa_state where
  "ex_won_sa = \<lparr>sa_board = ex_won_board, sa_playerTurn = 1,
     pieceCount = [1 \<mapsto> [1 \<mapsto> 3, 2 \<mapsto> 0, 3 \<mapsto> 0], 2 \<mapsto> [1 \<mapsto> 2, 2 \<mapsto> 0, 3 \<mapsto> 0]]\<rparr>"

definition ex_sa_placed :: sa_state where
  "ex_sa_placed = \<lparr>sa_board = [[[\<lparr>Size = 2, Owner = 1\<rparr>], [], []], [[], [], []], [[], [], [\<lparr>Size = 3, Owner = 1\<rparr>]]],
     sa_playerTurn = 1,
     pieceCount = [1 \<mapsto> [1 \<mapsto> 0, 2 \<mapsto> 1, 3 \<mapsto> 1], 2 \<mapsto> [1 \<mapsto> 0, 2 \<mapsto> 0, 3 \<mapsto> 0]]\<rparr>"

definition six_smalls :: net_state where
  "six_smalls =
     snd (placePiece 2 0 1 (snd (placePiece 1 1 1 (snd (placePiece 1 0 1
       (snd (placePiece 0 2 1 (snd (placePiece 0 1 1 (snd (placePiece 0 0 1 init_net)))))))))))"

definition six_smalls_board :: Board where
  "six_smalls_board =
     [[[\<lparr>Size = 1, Owner = 1\<rparr>], [\<lparr>Size = 1, Owner = 2\<rparr>], [\<lparr>Size = 1, Owner = 1\<rparr>]],
      [[\<lparr>Size = 1, Owner = 2\<rparr>], [\<lparr>Size = 1, Owner = 1\<rparr>], []],
      [[\<lparr>Size = 1, Owner = 2\<rparr>], [], []]]"

definition double_line_board :: Board where
  "double_line_board =
     [[[\<lparr>Size = 1, Owner = 2\<rparr>], [\<lparr>Size = 1, Owner = 2\<rparr>], [\<lparr>Size = 1, Owner = 2\<rparr>]],
      [[\<lparr>Size = 1, Owner = 1\<rparr>], [\<lparr>Size = 1, Owner = 1\<rparr>], [\<lparr>Size = 2, Owner = 1\<rparr>]],
      [[], [], []]]"

definition double_line_run :: net_state where
  "double_line_run =
     snd (movePiece 0 0 1 2 (snd (placePiece 0 2 1 (snd (placePiece 1 1 1
       (snd (placePiece 0 1 1 (snd (placePiece 0 0 2 (snd (placePiece 0 0 1
         (snd (placePiece 1 0 1 init_net)))))))))))))"

definition scenario_c_board :: Board where
  "scenario_c_board =
     [[[\<lparr>Size = 1, Owner = 1\<rparr>], [\<lparr>Size = 2, Owner = 1\<rparr>], [\<lparr>Size = 3, Owner = 1\<rparr>]],
      [[\<lparr>Size = 1, Owner = 2\<rparr>], [], []],
      [[], [], []]]"

text \<open>
  The example states after player 1 has moved the medium piece from (0,0) to (1,1) in the
  standalone program, and a state where that piece covers a small piece of player 2.
\<close>

definition ex_sa_moved :: sa_state where
  "ex_sa_moved = \<lparr>sa_board = [[[], [], []], [[], [\<lparr>Size = 2, Owner = 1\<rparr>], []], [[], [], []]],
     sa_playerTurn = 1,
     pieceCount = [1 \<mapsto> [1 \<mapsto> 0, 2 \<mapsto> 1, 3 \<mapsto> 0], 2 \<mapsto> [1 \<mapsto> 0, 2 \<mapsto> 0, 3 \<mapsto> 0]]\<rparr>"

definition ex_cover_board :: Board where
  "ex_cover_board =
     [[[\<lparr>Size = 1, Owner = 2\<rparr>, \<lparr>Size = 2, Owner = 1\<rparr>], [], []], [[], [], []], [[], [], []]]"

definition ex_uncovered_board :: Board where
  "ex_uncovered_board =
     [[[\<lparr>Size = 1, Owner = 2\<rparr>], [], []], [[], [\<lparr>Size = 2, Owner = 1\<rparr>], []], [[], [], []]]"

definition ex_cover_sa :: sa_state where
  "ex_cover_sa = \<lparr>sa_board = ex_cover_board, sa_playerTurn = 1,
     pieceCount = [1 \<mapsto> [1 \<mapsto> 0, 2 \<mapsto> 1, 3 \<mapsto> 0], 2 \<mapsto> [1 \<mapsto> 1, 2 \<mapsto> 0, 3 \<mapsto> 0]]\<rparr>"

definition ex_cover_net :: net_state where
  "ex_cover_net = \<lparr>board = ex_cover_board, playerTurn = 1, published = []\<rparr>"

section \<open>The wire format (networked terminal)\<close>

text \<open>
  \<^verbatim>\<open>saveGameState\<close> and \<^verbatim>\<open>publishMove\<close> publish \<^verbatim>\<open>json.Marshal(state)\<close>, and
  \<^verbatim>\<open>onMessageReceived\<close> reads a payload with \<^verbatim>\<open>json.Unmarshal(msg.Payload(), &state)\<close> into a
  fresh \<^verbatim>\<open>GameState\<close>. Both functions belong to Go's \<^verbatim>\<open>encoding/json\<close>, which is not among
  the source files. The specification gives the wire format as a structured record
  \<^verbatim>\<open>{ Board: [3][3] list-of-{Size:int,Owner:int}, PlayerTurn:int, Winner:int }\<close>, field-tagged
  and order-independent; the payload is modelled as the JSON value it denotes, not as text.
\<close>

text \<open>Modelled from the spec: the values of the self-describing payload (JSON values).\<close>

datatype json =
    JNull
  | JBool bool
  | JNumber int
  | JString string
  | JArray "json list"
  | JObject "(string \<times> json) list"

text \<open>Modelled from the spec: the decode failure of \<^verbatim>\<open>json.Unmarshal\<close>.\<close>

datatype json_error = UnmarshalTypeError

text \<open>The range of Go's \<^verbatim>\<open>int\<close>.\<close>

definition int64 :: "int \<Rightarrow> bool" where
  "int64 n = (- (2 ^ 63) \<le> n \<and> n < 2 ^ 63)"

text \<open>
  Modelled from the spec: \<^verbatim>\<open>json.Marshal\<close> on a \<^verbatim>\<open>Gobblet\<close>, the record
  \<^verbatim>\<open>{Size:int,Owner:int}\<close> tagged with its field names in the order of declaration.
\<close>

definition marshal_Gobblet :: "Gobblet \<Rightarrow> json" where
  "marshal_Gobblet g = JObject [(''Size'', JNumber (Size g)), (''Owner'', JNumber (Owner g))]"

text \<open>
  Modelled from the spec: \<^verbatim>\<open>json.Marshal\<close> on a \<^verbatim>\<open>Stack\<close>, a list of pieces. A stack of
  length 0 is a nil slice in a cell never written to, which \<^verbatim>\<open>encoding/json\<close> writes as
  \<^verbatim>\<open>null\<close>, and an empty slice after its last piece was moved away; the flag says which.
\<close>

definition marshal_Stack :: "bool \<Rightarrow> Stack \<Rightarrow> json" where
  "marshal_Stack isnil st =
     (if st = [] \<and> isnil then JNull else JArray (map marshal_Gobblet st))"

text \<open>Modelled from the spec: \<^verbatim>\<open>json.Marshal\<close> on a row \<^verbatim>\<open>[3]Stack\<close> of the board.\<close>

definition marshal_row :: "(nat \<Rightarrow> bool) \<Rightarrow> Stack list \<Rightarrow> json" where
  "marshal_row isnil row = JArray (map (\<lambda>j. marshal_Stack (isnil j) (row ! j)) [0..<3])"

text \<open>Modelled from the spec: \<^verbatim>\<open>json.Marshal\<close> on the \<^verbatim>\<open>Board\<close>, a \<^verbatim>\<open>[3][3]Stack\<close>.\<close>

definition marshal_Board :: "(nat \<Rightarrow> nat \<Rightarrow> bool) \<Rightarrow> Board \<Rightarrow> json" where
  "marshal_Board isnil b = JArray (map (\<lambda>i. marshal_row (isnil i) (b ! i)) [0..<3])"

text \<open>
  Modelled from the spec: \<^verbatim>\<open>json.Marshal(state)\<close>, the record
  \<^verbatim>\<open>{ Board, PlayerTurn, Winner }\<close> tagged with its field names.
\<close>

definition json_Marshal :: "(nat \<Rightarrow> nat \<Rightarrow> bool) \<Rightarrow> GameState \<Rightarrow> json" where
  "json_Marshal isnil state =
     JObject [(''Board'', marshal_Board isnil (Board state)),
              (''PlayerTurn'', JNumber (PlayerTurn state)),
              (''Winner'', JNumber (Winner state))]"

text \<open>
  Modelled from the spec: \<^verbatim>\<open>json.Unmarshal\<close> into an \<^verbatim>\<open>int\<close> that holds \<open>cur\<close>. \<^verbatim>\<open>null\<close>
  leaves the value as it is; a number must fit the \<^verbatim>\<open>int\<close>; any other value is a decode
  failure.
\<close>

fun unmarshal_int :: "int \<Rightarrow> json \<Rightarrow> json_error + int" where
  "unmarshal_int cur JNull = Inr cur"
| "unmarshal_int cur (JNumber n) = (if int64 n then Inr n else Inl UnmarshalTypeError)"
| "unmarshal_int cur v = Inl UnmarshalTypeError"

text \<open>
  Modelled from the spec: \<^verbatim>\<open>json.Unmarshal\<close> of the fields of a \<^verbatim>\<open>Gobblet\<close>, in whatever
  order the payload has them (order-independent): unknown keys are skipped and of a
  repeated key the last value counts. Keys are compared exactly (\<^verbatim>\<open>encoding/json\<close> also
  accepts keys that differ in case, which \<^verbatim>\<open>json.Marshal\<close> never writes).
\<close>

fun Gobblet_fields :: "(string \<times> json) list \<Rightarrow> Gobblet \<Rightarrow> json_error + Gobblet" where
  "Gobblet_fields [] g = Inr g"
| "Gobblet_fields ((k, v) # kvs) g =
     (if k = ''Size'' then
        (case unmarshal_int (Size g) v of
           Inl e \<Rightarrow> Inl e | Inr n \<Rightarrow> Gobblet_fields kvs (g\<lparr>Size := n\<rparr>))
      else if k = ''Owner'' then
        (case unmarshal_int (Owner g) v of
           Inl e \<Rightarrow> Inl e | Inr n \<Rightarrow> Gobblet_fields kvs (g\<lparr>Owner := n\<rparr>))
      else Gobblet_fields kvs g)"

text \<open>Modelled from the spec: \<^verbatim>\<open>json.Unmarshal\<close> into a fresh \<^verbatim>\<open>Gobblet\<close>.\<close>

fun unmarshal_Gobblet :: "json \<Rightarrow> json_error + Gobblet" where
  "unmarshal_Gobblet JNull = Inr \<lparr>Size = 0, Owner = 0\<rparr>"
| "unmarshal_Gobblet (JObject kvs) = Gobblet_fields kvs \<lparr>Size = 0, Owner = 0\<rparr>"
| "unmarshal_Gobblet v = Inl UnmarshalTypeError"

text \<open>Modelled from the spec: decoding fails as soon as one element fails.\<close>

fun all_or_error :: "(json_error + 'a) list \<Rightarrow> json_error + 'a list" where
  "all_or_error [] = Inr []"
| "all_or_error (x # xs) =
     (case x of
        Inl e \<Rightarrow> Inl e
      | Inr v \<Rightarrow> (case all_or_error xs of Inl e \<Rightarrow> Inl e | Inr vs \<Rightarrow> Inr (v # vs)))"

text \<open>
  Modelled from the spec: \<^verbatim>\<open>json.Unmarshal\<close> into a \<^verbatim>\<open>Stack\<close>; \<^verbatim>\<open>null\<close> makes the slice nil.
\<close>

fun unmarshal_Stack :: "json \<Rightarrow> json_error + Stack" where
  "unmarshal_Stack JNull = Inr []"
| "unmarshal_Stack (JArray vs) = all_or_error (map unmarshal_Gobblet vs)"
| "unmarshal_Stack v = Inl UnmarshalTypeError"

text \<open>
  Modelled from the spec: \<^verbatim>\<open>json.Unmarshal\<close> into a fresh Go array of length 3, which takes
  the first three elements of the payload's array and zeroes those that are missing.
\<close>

fun unmarshal_array3 :: "(json \<Rightarrow> json_error + 'a) \<Rightarrow> 'a \<Rightarrow> json \<Rightarrow> json_error + 'a list" where
  "unmarshal_array3 elem zero JNull = Inr [zero, zero, zero]"
| "unmarshal_array3 elem zero (JArray vs) =
     (case all_or_error (map elem (take 3 vs)) of
        Inl e \<Rightarrow> Inl e
      | Inr xs \<Rightarrow> Inr (xs @ replicate (3 - length xs) zero))"
| "unmarshal_array3 elem zero v = Inl UnmarshalTypeError"

text \<open>Modelled from the spec: \<^verbatim>\<open>json.Unmarshal\<close> into a row \<^verbatim>\<open>[3]Stack\<close>.\<close>

definition unmarshal_row :: "json \<Rightarrow> json_error + Stack list" where
  "unmarshal_row = unmarshal_array3 unmarshal_Stack []"

text \<open>Modelled from the spec: \<^verbatim>\<open>json.Unmarshal\<close> into a \<^verbatim>\<open>Board\<close>.\<close>

definition unmarshal_Board :: "json \<Rightarrow> json_error + Board" where
  "unmarshal_Board = unmarshal_array3 unmarshal_row [[], [], []]"

text \<open>
  Modelled from the spec: \<^verbatim>\<open>json.Unmarshal\<close> of the fields of a \<^verbatim>\<open>GameState\<close>, in whatever
  order the payload has them.
\<close>

fun GameState_fields :: "(string \<times> json) list \<Rightarrow> GameState \<Rightarrow> json_error + GameState" where
  "GameState_fields [] state = Inr state"
| "GameState_fields ((k, v) # kvs) state =
     (if k = ''Board'' then
        (if v = JNull then GameState_fields kvs state
         else (case unmarshal_Board v of
                 Inl e \<Rightarrow> Inl e | Inr b \<Rightarrow> GameState_fields kvs (state\<lparr>Board := b\<rparr>)))
      else if k = ''PlayerTurn'' then
        (case unmarshal_int (PlayerTurn state) v of
           Inl e \<Rightarrow> Inl e | Inr n \<Rightarrow> GameState_fields kvs (state\<lparr>PlayerTurn := n\<rparr>))
      else if k = ''Winner'' then
        (case unmarshal_int (Winner state) v of
           Inl e \<Rightarrow> Inl e | Inr n \<Rightarrow> GameState_fields kvs (state\<lparr>Winner := n\<rparr>))
      else GameState_fields kvs state)"

text \<open>
  Modelled from the spec: \<^verbatim>\<open>var state GameState; err := json.Unmarshal(payload, &state)\<close>.
\<close>

fun json_Unmarshal :: "json \<Rightarrow> json_error + GameState" where
  "json_Unmarshal JNull = Inr \<lparr>Board = empty_board, PlayerTurn = 0, Winner = 0\<rparr>"
| "json_Unmarshal (JObject kvs) =
     GameState_fields kvs \<lparr>Board = empty_board, PlayerTurn = 0, Winner = 0\<rparr>"
| "json_Unmarshal v = Inl UnmarshalTypeError"

text \<open>
  \<^verbatim>\<open>onMessageReceived\<close>: a payload that does not decode is dropped; otherwise board and
  turn are replaced, and a snapshot with a winner ends the process (\<^verbatim>\<open>os.Exit(0)\<close>).
\<close>

datatype received = Dropped net_state | Updated net_state | Exited int net_state

definition onMessageReceived :: "json \<Rightarrow> net_state \<Rightarrow> received" where
  "onMessageReceived payload s =
     (case json_Unmarshal payload of
        Inl err \<Rightarrow> Dropped s
      | Inr state \<Rightarrow>
          (let s1 = s\<lparr>board := Board state, playerTurn := PlayerTurn state\<rparr>
           in if Winner state \<noteq> 0 then Exited (Winner state) s1 else Updated s1))"

text \<open>The values of the Go type \<^verbatim>\<open>GameState\<close>: a 3x3 board and 64-bit integers.\<close>

definition go_GameState :: "GameState \<Rightarrow> bool" where
  "go_GameState state =
     (wf_board (Board state) \<and>
      list_all (\<lambda>g. int64 (Size g) \<and> int64 (Owner g)) (pieces (Board state)) \<and>
      int64 (PlayerTurn state) \<and> int64 (Winner state))"

text \<open>
  Example snapshots and payloads: the all-empty board of a fresh session; the board
  after the covering piece was moved, with an empty slice on (0,2); a full board; a
  snapshot with a winner.
\<close>

definition snap_empty :: GameState where
  "snap_empty = \<lparr>Board = empty_board, PlayerTurn = 1, Winner = 0\<rparr>"

definition json_empty :: json where
  "json_empty =
     JObject [(''Board'', JArray [JArray [JNull, JNull, JNull], JArray [JNull, JNull, JNull],
                                  JArray [JNull, JNull, JNull]]),
              (''PlayerTurn'', JNumber 1), (''Winner'', JNumber 0)]"

definition full_board :: Board where
  "full_board =
     [[[\<lparr>Size = 1, Owner = 2\<rparr>, \<lparr>Size = 2, Owner = 1\<rparr>], [\<lparr>Size = 1, Owner = 2\<rparr>], [\<lparr>Size = 3, Owner = 1\<rparr>]],
      [[\<lparr>Size = 1, Owner = 1\<rparr>], [\<lparr>Size = 2, Owner = 2\<rparr>], [\<lparr>Size = 3, Owner = 2\<rparr>]],
      [[\<lparr>Size = 2, Owner = 2\<rparr>], [\<lparr>Size = 1, Owner = 1\<rparr>], [\<lparr>Size = 3, Owner = 1\<rparr>]]]"

definition snap_full :: GameState where
  "snap_full = \<lparr>Board = full_board, PlayerTurn = 2, Winner = 0\<rparr>"

definition snap_cover :: GameState where
  "snap_cover = \<lparr>Board = ex_uncovered_board, PlayerTurn = 2, Winner = 0\<rparr>"

definition json_cover :: json where
  "json_cover =
     JObject [(''Board'',
         JArray [JArray [JArray [JObject [(''Size'', JNumber 1), (''Owner'', JNumber 2)]],
                         JNull, JArray []],
                 JArray [JNull, JArray [JObject [(''Size'', JNumber 2), (''Owner'', JNumber 1)]],
                         JNull],
                 JArray [JNull, JNull, JNull]]),
       (''PlayerTurn'', JNumber 2), (''Winner'', JNumber 0)]"

definition snap_won :: GameState where
  "snap_won = \<lparr>Board = ex_won_board, PlayerTurn = 1, Winner = 1\<rparr>"

section \<open>Basic facts about cells\<close>

lemma cell_set_cell_same:
  "wf_board b \<Longrightarrow> 0 \<le> r \<Longrightarrow> r < 3 \<Longrightarrow> 0 \<le> c \<Longrightarrow> c < 3 \<Longrightarrow> cell (set_cell b r c st) r c = st"
proof -
  assume wf: "wf_board b" and r: "0 \<le> r" "r < 3" and c: "0 \<le> c" "c < 3"
  have lr: "nat r < length b" using wf r by (simp add: wf_board_def)
  then have "b ! nat r \<in> set b" by simp
  then have "length (b ! nat r) = 3" using wf by (simp add: wf_board_def list_all_iff)
  then have "nat c < length (b ! nat r)" using c by simp
  with lr show ?thesis by (simp add: cell_def set_cell_def)
qed

lemma cell_set_cell_other:
  "0 \<le> r \<Longrightarrow> 0 \<le> c \<Longrightarrow> 0 \<le> r' \<Longrightarrow> 0 \<le> c' \<Longrightarrow> (r', c') \<noteq> (r, c) \<Longrightarrow>
   cell (set_cell b r c st) r' c' = cell b r' c'"
  by (cases "nat r' = nat r"; cases "nat r < length b")
     (auto simp: cell_def set_cell_def nth_list_update list_update_beyond)

lemma wf_board_set_cell: "wf_board b \<Longrightarrow> wf_board (set_cell b r c st)"
proof (cases "nat r < length b")
  case True
  assume wf: "wf_board b"
  have "length ((b ! nat r)[nat c := st]) = 3"
    using wf True by (simp add: wf_board_def list_all_iff)
  moreover have "set (b[nat r := (b ! nat r)[nat c := st]])
      \<subseteq> insert ((b ! nat r)[nat c := st]) (set b)"
    by (rule set_update_subset_insert)
  ultimately show ?thesis
    using wf by (auto simp: wf_board_def set_cell_def list_all_iff)
next
  case False
  assume "wf_board b"
  with False show ?thesis
    by (simp add: set_cell_def list_update_beyond)
qed

lemma wf_board_empty: "wf_board empty_board"
  by (simp add: wf_board_def empty_board_def)

section \<open>Unfolding the loop of \<^verbatim>\<open>checkWin\<close>; the two publishing functions\<close>

text \<open>The loop runs for \<open>i = 0, 1, 2\<close>: the eight lines are examined in this order.\<close>

lemma checkWin_unfold:
  "checkWin b =
     (let w0 = checkLine (cell b 0 0) (cell b 0 1) (cell b 0 2) in if w0 \<noteq> 0 then w0 else
      let w1 = checkLine (cell b 0 0) (cell b 1 0) (cell b 2 0) in if w1 \<noteq> 0 then w1 else
      let w2 = checkLine (cell b 1 0) (cell b 1 1) (cell b 1 2) in if w2 \<noteq> 0 then w2 else
      let w3 = checkLine (cell b 0 1) (cell b 1 1) (cell b 2 1) in if w3 \<noteq> 0 then w3 else
      let w4 = checkLine (cell b 2 0) (cell b 2 1) (cell b 2 2) in if w4 \<noteq> 0 then w4 else
      let w5 = checkLine (cell b 0 2) (cell b 1 2) (cell b 2 2) in if w5 \<noteq> 0 then w5 else
      let w6 = checkLine (cell b 0 0) (cell b 1 1) (cell b 2 2) in if w6 \<noteq> 0 then w6 else
      let w7 = checkLine (cell b 0 2) (cell b 1 1) (cell b 2 0) in if w7 \<noteq> 0 then w7 else 0)"
  by (simp add: checkWin_def checkWin_from.simps [of b 0] checkWin_from.simps [of b 1]
      checkWin_from.simps [of b 2] checkWin_from.simps [of b 3] Let_def)

lemma saveGameState_sel [simp]:
  "board (saveGameState s) = board s"
  "playerTurn (saveGameState s) = playerTurn s"
  "published (saveGameState s) =
     published s @ [\<lparr>Board = board s, PlayerTurn = playerTurn s, Winner = checkWin (board s)\<rparr>]"
  by (simp_all add: saveGameState_def Let_def)

lemma publishMove_sel [simp]:
  "board (publishMove s) = board s"
  "playerTurn (publishMove s) = playerTurn s"
  "published (publishMove s) =
     published s @ [\<lparr>Board = board s, PlayerTurn = playerTurn s, Winner = checkWin (board s)\<rparr>]"
  by (simp_all add: publishMove_def Let_def)

text \<open>Facts for evaluating the model on concrete boards.\<close>

lemmas eval_simps = cell_def set_cell_def empty_board_def init_net_def init_sa_def
  checkWin_unfold checkLine_def Let_def

section \<open>Rejected actions\<close>

lemma placePiece_rejected: "placePiece row col sz s = (False, s') \<Longrightarrow> s' = s"
  by (auto simp: placePiece_def Let_def split: if_splits)

lemma movePiece_rejected: "movePiece fr fc tr tc s = (False, s') \<Longrightarrow> s' = s"
  by (auto simp: movePiece_def Let_def split: if_splits)

lemma placePiece_sa_rejected: "placePiece_sa row col sz t = Inr (False, t') \<Longrightarrow> t' = t"
  by (auto simp: placePiece_sa_def Let_def split: if_splits option.splits)

lemma movePiece_sa_rejected: "movePiece_sa fr fc tr tc t = (False, t') \<Longrightarrow> t' = t"
  by (auto simp: movePiece_sa_def Let_def split: if_splits)

text \<open>
  C4: whenever \<^verbatim>\<open>placePiece\<close> or \<^verbatim>\<open>movePiece\<close> returns false, in either program, the
  state after the call is the state before it: the board, the turn, the piece counts of
  the standalone program and the list of snapshots published by the networked one (so
  nothing was published). Calling again with the same arguments is rejected again and
  changes nothing; the standalone main loop continues with the state and the turn as
  they were.
\<close>

theorem rejected_action_changes_nothing:
  "(placePiece row col sz s = (False, s') \<longrightarrow>
      s' = s \<and> published s' = published s \<and> placePiece row col sz s' = (False, s')) \<and>
   (movePiece fr fc tr tc s = (False, s'') \<longrightarrow>
      s'' = s \<and> published s'' = published s \<and> movePiece fr fc tr tc s'' = (False, s'')) \<and>
   (placePiece_sa row col sz t = Inr (False, t') \<longrightarrow>
      t' = t \<and> placePiece_sa row col sz t' = Inr (False, t')
      \<and> main_iter (Place row col sz) t = Continue t) \<and>
   (movePiece_sa fr fc tr tc t = (False, t'') \<longrightarrow>
      t'' = t \<and> movePiece_sa fr fc tr tc t'' = (False, t'')
      \<and> main_iter (Move fr fc tr tc) t = Continue t)"
proof (intro conjI impI)
  assume a: "placePiece row col sz s = (False, s')"
  then show eq: "s' = s" by (rule placePiece_rejected)
  then show "published s' = published s" by simp
  from a eq show "placePiece row col sz s' = (False, s')" by simp
next
  assume a: "movePiece fr fc tr tc s = (False, s'')"
  then show eq: "s'' = s" by (rule movePiece_rejected)
  then show "published s'' = published s" by simp
  from a eq show "movePiece fr fc tr tc s'' = (False, s'')" by simp
next
  assume a: "placePiece_sa row col sz t = Inr (False, t')"
  then show eq: "t' = t" by (rule placePiece_sa_rejected)
  from a eq show "placePiece_sa row col sz t' = Inr (False, t')" by simp
  from a eq show "main_iter (Place row col sz) t = Continue t" by simp
next
  assume a: "movePiece_sa fr fc tr tc t = (False, t'')"
  then show eq: "t'' = t" by (rule movePiece_sa_rejected)
  from a eq show "movePiece_sa fr fc tr tc t'' = (False, t'')" by simp
  from a eq show "main_iter (Move fr fc tr tc) t = Continue t" by simp
qed

text \<open>
  The witness: a small piece on the medium piece of cell (0,0), and a move from the empty
  cell (1,1), are rejected in both programs.
\<close>

theorem rejected_action_changes_nothing_witness:
  "placePiece 0 0 1 ex_net = (False, ex_net) \<and> movePiece 1 1 0 0 ex_net = (False, ex_net) \<and>
   placePiece_sa 0 0 1 ex_sa = Inr (False, ex_sa) \<and> movePiece_sa 1 1 0 0 ex_sa = (False, ex_sa) \<and>
   main_iter (Place 0 0 1) ex_sa = Continue ex_sa \<and> main_iter (Move 1 1 0 0) ex_sa = Continue ex_sa"
proof -
  have p: "placePiece 0 0 1 ex_net = (False, ex_net)"
    by (simp add: placePiece_def ex_net_def ex_board_def eval_simps)
  have m: "movePiece 1 1 0 0 ex_net = (False, ex_net)"
    by (simp add: movePiece_def ex_net_def ex_board_def eval_simps)
  have ps: "placePiece_sa 0 0 1 ex_sa = Inr (False, ex_sa)"
    by (simp add: placePiece_sa_def count_of_def ex_sa_def ex_board_def eval_simps)
  have ms: "movePiece_sa 1 1 0 0 ex_sa = (False, ex_sa)"
    by (simp add: movePiece_sa_def ex_sa_def ex_board_def eval_simps)
  from p m ps ms
    rejected_action_changes_nothing [of 0 0 1 ex_net ex_net 1 1 0 0 ex_net ex_sa ex_sa ex_sa]
  show ?thesis by simp
qed

text \<open>
  C9: a move whose source and destination are the same in-bounds, non-empty cell is
  rejected in both programs and leaves the state, hence the board, unchanged: when the
  top piece belongs to the player to move, the destination check compares its size with
  itself.
\<close>

theorem move_onto_own_cell_rejected:
  "0 \<le> r \<Longrightarrow> r < 3 \<Longrightarrow> 0 \<le> c \<Longrightarrow> c < 3 \<Longrightarrow>
   (cell (board s) r c \<noteq> [] \<longrightarrow> movePiece r c r c s = (False, s)) \<and>
   (cell (sa_board t) r c \<noteq> [] \<longrightarrow> movePiece_sa r c r c t = (False, t))"
  by (simp add: movePiece_def movePiece_sa_def Let_def)

theorem move_onto_own_cell_rejected_witness:
  "cell (board ex_net) 0 0 \<noteq> [] \<and> movePiece 0 0 0 0 ex_net = (False, ex_net) \<and>
   cell (sa_board ex_sa) 0 0 \<noteq> [] \<and> movePiece_sa 0 0 0 0 ex_sa = (False, ex_sa)"
proof -
  have n: "cell (board ex_net) 0 0 \<noteq> []"
    by (simp add: ex_net_def ex_board_def cell_def)
  have a: "cell (sa_board ex_sa) 0 0 \<noteq> []"
    by (simp add: ex_sa_def ex_board_def cell_def)
  from n a move_onto_own_cell_rejected [of 0 0 ex_net ex_sa]
  show ?thesis by simp
qed

lemma wrap64_id: "- (2 ^ 63) \<le> x \<Longrightarrow> x < 2 ^ 63 \<Longrightarrow> wrap64 x = x"
  by (simp add: wrap64_def)

lemma flip_turn: "p = 1 \<or> p = 2 \<Longrightarrow> wrap64 (3 - p) = 3 - p"
  by (auto simp: wrap64_def)

lemma placePiece_accepted:
  assumes "placePiece row col sz s = (True, s')"
  shows "1 \<le> sz \<and> sz \<le> 3 \<and> \<not> out_of_bounds row col \<and> \<not> top_blocks (board s) row col sz"
    and "board s' = set_cell (board s) row col
           (cell (board s) row col @ [\<lparr>Size = sz, Owner = playerTurn s\<rparr>])"
    and "playerTurn s' = (if checkWin (board s') \<noteq> 0 then playerTurn s else wrap64 (3 - playerTurn s))"
    and "published s' = published s @
           \<lparr>Board = board s', PlayerTurn = playerTurn s, Winner = checkWin (board s')\<rparr> #
           \<lparr>Board = board s', PlayerTurn = playerTurn s, Winner = checkWin (board s')\<rparr> #
           (if checkWin (board s') \<noteq> 0 then []
            else [\<lparr>Board = board s', PlayerTurn = wrap64 (3 - playerTurn s), Winner = 0\<rparr>])"
  using assms
  by (auto simp: placePiece_def out_of_bounds_def top_blocks_def Let_def split: if_splits)

lemma movePiece_accepted:
  assumes "movePiece fr fc tr tc s = (True, s')"
  shows "\<not> out_of_bounds fr fc \<and> \<not> out_of_bounds tr tc \<and> cell (board s) fr fc \<noteq> []
         \<and> Owner (last (cell (board s) fr fc)) = playerTurn s
         \<and> \<not> top_blocks (board s) tr tc (Size (last (cell (board s) fr fc)))"
    and "board s' =
           set_cell (set_cell (board s) fr fc (butlast (cell (board s) fr fc))) tr tc
             (cell (set_cell (board s) fr fc (butlast (cell (board s) fr fc))) tr tc
                @ [last (cell (board s) fr fc)])"
    and "playerTurn s' = (if checkWin (board s') \<noteq> 0 then playerTurn s else wrap64 (3 - playerTurn s))"
    and "published s' = published s @
           \<lparr>Board = board s', PlayerTurn = playerTurn s, Winner = checkWin (board s')\<rparr> #
           \<lparr>Board = board s', PlayerTurn = playerTurn s, Winner = checkWin (board s')\<rparr> #
           (if checkWin (board s') \<noteq> 0 then []
            else [\<lparr>Board = board s', PlayerTurn = wrap64 (3 - playerTurn s), Winner = 0\<rparr>])"
  using assms
  by (auto simp: movePiece_def out_of_bounds_def top_blocks_def Let_def split: if_splits)

lemma movePiece_sa_accepted:
  assumes "movePiece_sa fr fc tr tc t = (True, t')"
  shows "\<not> out_of_bounds fr fc \<and> \<not> out_of_bounds tr tc \<and> cell (sa_board t) fr fc \<noteq> []
         \<and> Owner (last (cell (sa_board t) fr fc)) = sa_playerTurn t
         \<and> \<not> top_blocks (sa_board t) tr tc (Size (last (cell (sa_board t) fr fc)))"
    and "sa_board t' =
           set_cell (set_cell (sa_board t) fr fc (butlast (cell (sa_board t) fr fc))) tr tc
             (cell (set_cell (sa_board t) fr fc (butlast (cell (sa_board t) fr fc))) tr tc
                @ [last (cell (sa_board t) fr fc)])"
    and "sa_playerTurn t' = sa_playerTurn t" and "pieceCount t' = pieceCount t"
  using assms
  by (auto simp: movePiece_sa_def out_of_bounds_def top_blocks_def Let_def split: if_splits)

lemma placePiece_sa_accepted:
  assumes "placePiece_sa row col sz t = Inr (True, t')"
  shows "\<not> out_of_bounds row col \<and> count_of (pieceCount t) (sa_playerTurn t) sz < 3
         \<and> \<not> top_blocks (sa_board t) row col sz"
    and "sa_board t' = set_cell (sa_board t) row col
           (cell (sa_board t) row col @ [\<lparr>Size = sz, Owner = sa_playerTurn t\<rparr>])"
    and "sa_playerTurn t' = sa_playerTurn t"
    and "count_of (pieceCount t') (sa_playerTurn t) sz
           = wrap64 (count_of (pieceCount t) (sa_playerTurn t) sz + 1)"
    and "(p, z) \<noteq> (sa_playerTurn t, sz) \<Longrightarrow> count_of (pieceCount t') p z = count_of (pieceCount t) p z"
  using assms
  by (auto simp: placePiece_sa_def out_of_bounds_def top_blocks_def count_of_def Let_def
      split: if_splits option.splits)

text \<open>The board after a move, cell by cell.\<close>

lemma moved_board_cells:
  assumes wf: "wf_board b" and src: "\<not> out_of_bounds fr fc" and dst: "\<not> out_of_bounds tr tc"
    and ne: "(fr, fc) \<noteq> (tr, tc)"
  defines "b' \<equiv> set_cell (set_cell b fr fc (butlast (cell b fr fc))) tr tc
             (cell (set_cell b fr fc (butlast (cell b fr fc))) tr tc @ [last (cell b fr fc)])"
  shows "cell b' fr fc = butlast (cell b fr fc)"
    and "cell b' tr tc = cell b tr tc @ [last (cell b fr fc)]"
    and "0 \<le> r \<Longrightarrow> 0 \<le> c \<Longrightarrow> (r, c) \<noteq> (fr, fc) \<Longrightarrow> (r, c) \<noteq> (tr, tc) \<Longrightarrow> cell b' r c = cell b r c"
    and "wf_board b'"
proof -
  let ?b1 = "set_cell b fr fc (butlast (cell b fr fc))"
  have wf1: "wf_board ?b1" using wf by (rule wf_board_set_cell)
  have b: "0 \<le> fr" "fr < 3" "0 \<le> fc" "fc < 3" "0 \<le> tr" "tr < 3" "0 \<le> tc" "tc < 3"
    using src dst by (auto simp: out_of_bounds_def)
  have dst1: "cell ?b1 tr tc = cell b tr tc"
    using b ne by (intro cell_set_cell_other) auto
  show "cell b' fr fc = butlast (cell b fr fc)"
    unfolding b'_def using b ne wf
    by (subst cell_set_cell_other) (auto simp: cell_set_cell_same)
  show "cell b' tr tc = cell b tr tc @ [last (cell b fr fc)]"
    unfolding b'_def using b wf1 dst1 by (simp add: cell_set_cell_same)
  show "wf_board b'" unfolding b'_def using wf1 by (rule wf_board_set_cell)
  show "cell b' r c = cell b r c"
    if "0 \<le> r" "0 \<le> c" "(r, c) \<noteq> (fr, fc)" "(r, c) \<noteq> (tr, tc)"
    unfolding b'_def using that b
    by (simp add: cell_set_cell_other)
qed

lemma moved_top_intro:
  assumes wf: "wf_board b" and src: "\<not> out_of_bounds fr fc" and dst: "\<not> out_of_bounds tr tc"
    and ne: "cell b fr fc \<noteq> []"
    and ok: "\<not> top_blocks b tr tc (Size (last (cell b fr fc)))"
    and b': "b' = set_cell (set_cell b fr fc (butlast (cell b fr fc))) tr tc
             (cell (set_cell b fr fc (butlast (cell b fr fc))) tr tc @ [last (cell b fr fc)])"
  shows "wf_board b' \<and> moved_top b fr fc tr tc b'"
proof -
  have diff: "(fr, fc) \<noteq> (tr, tc)"
    using ne ok by (auto simp: top_blocks_def)
  note cells = moved_board_cells [OF wf src dst diff]
  show ?thesis
    unfolding moved_top_def b'
    using diff ne cells(1,2,4) by (auto intro: cells(3))
qed

section \<open>Accepted moves\<close>

text \<open>
  C6: after a move that either program accepts, on a 3x3 board, the source stack is its
  old value without its last element, the destination stack is its old value with that
  element appended, source and destination differ, and every other cell of the board is
  as before; the board is still 3x3.
\<close>

theorem successful_move_pops_source_pushes_destination:
  "(wf_board (board s) \<and> movePiece fromRow fromCol toRow toCol s = (True, s') \<longrightarrow>
      wf_board (board s') \<and> moved_top (board s) fromRow fromCol toRow toCol (board s')) \<and>
   (wf_board (sa_board t) \<and> movePiece_sa fromRow fromCol toRow toCol t = (True, t') \<longrightarrow>
      wf_board (sa_board t') \<and> moved_top (sa_board t) fromRow fromCol toRow toCol (sa_board t'))"
proof (rule conjI; rule impI; elim conjE)
  assume wf: "wf_board (board s)" and m: "movePiece fromRow fromCol toRow toCol s = (True, s')"
  from movePiece_accepted(1) [OF m] movePiece_accepted(2) [OF m] wf
  show "wf_board (board s') \<and> moved_top (board s) fromRow fromCol toRow toCol (board s')"
    by (intro moved_top_intro) simp_all
next
  assume wf: "wf_board (sa_board t)"
    and m: "movePiece_sa fromRow fromCol toRow toCol t = (True, t')"
  from movePiece_sa_accepted(1) [OF m] movePiece_sa_accepted(2) [OF m] wf
  show "wf_board (sa_board t') \<and> moved_top (sa_board t) fromRow fromCol toRow toCol (sa_board t')"
    by (intro moved_top_intro) simp_all
qed

lemma ex_net_move: "movePiece 0 0 1 1 ex_net = (True, ex_net_moved)"
  by (simp add: movePiece_def ex_net_def ex_net_moved_def ex_board_def eval_simps wrap64_def)

lemma ex_sa_move: "movePiece_sa 0 0 1 1 ex_sa = (True, ex_sa_moved)"
  by (simp add: movePiece_sa_def ex_sa_def ex_sa_moved_def ex_board_def eval_simps)

lemma ex_cover_sa_move:
  "movePiece_sa 0 0 1 1 ex_cover_sa = (True, ex_cover_sa\<lparr>sa_board := ex_uncovered_board\<rparr>)"
  by (simp add: movePiece_sa_def ex_cover_sa_def ex_cover_board_def ex_uncovered_board_def
      eval_simps)

lemma ex_cover_net_move:
  "fst (movePiece 0 0 1 1 ex_cover_net) \<and> board (snd (movePiece 0 0 1 1 ex_cover_net)) = ex_uncovered_board"
  by (simp add: movePiece_def ex_cover_net_def ex_cover_board_def ex_uncovered_board_def
      eval_simps)

lemma wf_ex_board: "wf_board ex_board"
  by (simp add: wf_board_def ex_board_def)

lemma wf_ex_cover_board: "wf_board ex_cover_board"
  by (simp add: wf_board_def ex_cover_board_def)

text \<open>
  The witness: in both programs player 1 moves the medium piece from (0,0) to (1,1), once
  from a stack of one piece and once from on top of a small piece of player 2, which
  becomes the top of the source cell.
\<close>

theorem successful_move_pops_source_pushes_destination_witness:
  "movePiece 0 0 1 1 ex_net = (True, ex_net_moved) \<and> wf_board (board ex_net_moved) \<and>
   moved_top (board ex_net) 0 0 1 1 (board ex_net_moved) \<and>
   movePiece_sa 0 0 1 1 ex_sa = (True, ex_sa_moved) \<and> wf_board (sa_board ex_sa_moved) \<and>
   moved_top (sa_board ex_sa) 0 0 1 1 (sa_board ex_sa_moved) \<and>
   cell (sa_board ex_sa) 0 0 = [\<lparr>Size = 2, Owner = 1\<rparr>] \<and>
   cell (sa_board ex_sa_moved) 0 0 = [] \<and>
   cell (sa_board ex_sa_moved) 1 1 = [\<lparr>Size = 2, Owner = 1\<rparr>] \<and>
   movePiece_sa 0 0 1 1 ex_cover_sa = (True, ex_cover_sa\<lparr>sa_board := ex_uncovered_board\<rparr>) \<and>
   fst (movePiece 0 0 1 1 ex_cover_net) \<and>
   board (snd (movePiece 0 0 1 1 ex_cover_net)) = ex_uncovered_board \<and>
   wf_board ex_uncovered_board \<and> moved_top ex_cover_board 0 0 1 1 ex_uncovered_board \<and>
   cell ex_cover_board 0 0 = [\<lparr>Size = 1, Owner = 2\<rparr>, \<lparr>Size = 2, Owner = 1\<rparr>] \<and>
   cell ex_uncovered_board 0 0 = [\<lparr>Size = 1, Owner = 2\<rparr>] \<and>
   cell ex_uncovered_board 1 1 = [\<lparr>Size = 2, Owner = 1\<rparr>]"
proof -
  have wf: "wf_board (board ex_net)" "wf_board (sa_board ex_sa)"
    "wf_board (sa_board ex_cover_sa)" "wf_board (board ex_cover_net)"
    by (simp_all add: ex_net_def ex_sa_def ex_cover_sa_def ex_cover_net_def wf_ex_board
        wf_ex_cover_board)
  have cm: "movePiece 0 0 1 1 ex_cover_net = (True, snd (movePiece 0 0 1 1 ex_cover_net))"
    using ex_cover_net_move by (cases "movePiece 0 0 1 1 ex_cover_net") simp
  have cells: "cell (sa_board ex_sa) 0 0 = [\<lparr>Size = 2, Owner = 1\<rparr>]"
    "cell (sa_board ex_sa_moved) 0 0 = []"
    "cell (sa_board ex_sa_moved) 1 1 = [\<lparr>Size = 2, Owner = 1\<rparr>]"
    "cell ex_cover_board 0 0 = [\<lparr>Size = 1, Owner = 2\<rparr>, \<lparr>Size = 2, Owner = 1\<rparr>]"
    "cell ex_uncovered_board 0 0 = [\<lparr>Size = 1, Owner = 2\<rparr>]"
    "cell ex_uncovered_board 1 1 = [\<lparr>Size = 2, Owner = 1\<rparr>]"
    by (simp_all add: ex_sa_def ex_sa_moved_def ex_board_def ex_cover_board_def
        ex_uncovered_board_def cell_def)
  from successful_move_pops_source_pushes_destination
         [of ex_net 0 0 1 1 ex_net_moved ex_sa ex_sa_moved]
    successful_move_pops_source_pushes_destination
         [of ex_cover_net 0 0 1 1 "snd (movePiece 0 0 1 1 ex_cover_net)" ex_cover_sa
           "ex_cover_sa\<lparr>sa_board := ex_uncovered_board\<rparr>"]
    wf ex_net_move ex_sa_move ex_cover_sa_move ex_cover_net_move cm cells
  show ?thesis by (simp add: ex_cover_sa_def ex_cover_net_def)
qed

section \<open>Publishes of an accepted action (networked terminal)\<close>

text \<open>
  C1 as stated fails: \<^verbatim>\<open>placePiece\<close> and \<^verbatim>\<open>movePiece\<close> call \<^verbatim>\<open>saveGameState\<close> and then
  \<^verbatim>\<open>publishMove\<close>, which both publish, before the turn flips and \<^verbatim>\<open>publishMove\<close> runs
  again. Placing a small piece on (0,0) in a fresh session is accepted, produces no
  winner and issues three publishes.
\<close>

theorem two_publishes_counterexample:
  "fst (placePiece 0 0 1 init_net) \<and> checkWin (board (snd (placePiece 0 0 1 init_net))) = 0 \<and>
   published init_net = [] \<and> length (published (snd (placePiece 0 0 1 init_net))) = 3"
  by (simp add: placePiece_def eval_simps)

text \<open>
  C1, amended: an accepted place or move that produces no winner issues exactly three
  publishes: two equal snapshots of the new board with the turn of the mover, and after
  the flip \<open>next = 3 - current\<close> a third one with the new turn.
\<close>

theorem successful_action_publishes_three_snapshots:
  "playerTurn s = 1 \<or> playerTurn s = 2 \<Longrightarrow>
   (placePiece row col sz s = (True, s') \<and> checkWin (board s') = 0 \<longrightarrow>
      playerTurn s' = 3 - playerTurn s \<and>
      published s' = published s @
        [\<lparr>Board = board s', PlayerTurn = playerTurn s, Winner = 0\<rparr>,
         \<lparr>Board = board s', PlayerTurn = playerTurn s, Winner = 0\<rparr>,
         \<lparr>Board = board s', PlayerTurn = 3 - playerTurn s, Winner = 0\<rparr>]) \<and>
   (movePiece fromRow fromCol toRow toCol s = (True, s'') \<and> checkWin (board s'') = 0 \<longrightarrow>
      playerTurn s'' = 3 - playerTurn s \<and>
      published s'' = published s @
        [\<lparr>Board = board s'', PlayerTurn = playerTurn s, Winner = 0\<rparr>,
         \<lparr>Board = board s'', PlayerTurn = playerTurn s, Winner = 0\<rparr>,
         \<lparr>Board = board s'', PlayerTurn = 3 - playerTurn s, Winner = 0\<rparr>])"
proof (rule conjI; rule impI; elim conjE)
  assume t: "playerTurn s = 1 \<or> playerTurn s = 2"
    and p: "placePiece row col sz s = (True, s')" and w: "checkWin (board s') = 0"
  from placePiece_accepted(3) [OF p] placePiece_accepted(4) [OF p] w flip_turn [OF t]
  show "playerTurn s' = 3 - playerTurn s \<and>
      published s' = published s @
        [\<lparr>Board = board s', PlayerTurn = playerTurn s, Winner = 0\<rparr>,
         \<lparr>Board = board s', PlayerTurn = playerTurn s, Winner = 0\<rparr>,
         \<lparr>Board = board s', PlayerTurn = 3 - playerTurn s, Winner = 0\<rparr>]"
    by simp
next
  assume t: "playerTurn s = 1 \<or> playerTurn s = 2"
    and m: "movePiece fromRow fromCol toRow toCol s = (True, s'')"
    and w: "checkWin (board s'') = 0"
  from movePiece_accepted(3) [OF m] movePiece_accepted(4) [OF m] w flip_turn [OF t]
  show "playerTurn s'' = 3 - playerTurn s \<and>
      published s'' = published s @
        [\<lparr>Board = board s'', PlayerTurn = playerTurn s, Winner = 0\<rparr>,
         \<lparr>Board = board s'', PlayerTurn = playerTurn s, Winner = 0\<rparr>,
         \<lparr>Board = board s'', PlayerTurn = 3 - playerTurn s, Winner = 0\<rparr>]"
    by simp
qed

lemma ex_net_place: "placePiece 2 2 3 ex_net = (True, ex_net_placed)"
  by (simp add: placePiece_def ex_net_def ex_net_placed_def ex_board_def eval_simps wrap64_def)

lemma checkWin_ex_net_placed: "checkWin (board ex_net_placed) = 0"
  by (simp add: ex_net_placed_def eval_simps)

lemma checkWin_ex_net_moved: "checkWin (board ex_net_moved) = 0"
  by (simp add: ex_net_moved_def eval_simps)

theorem successful_action_publishes_three_snapshots_witness:
  "placePiece 2 2 3 ex_net = (True, ex_net_placed) \<and> checkWin (board ex_net_placed) = 0 \<and>
   playerTurn ex_net_placed = 3 - playerTurn ex_net \<and>
   published ex_net_placed = published ex_net @
     [\<lparr>Board = board ex_net_placed, PlayerTurn = playerTurn ex_net, Winner = 0\<rparr>,
      \<lparr>Board = board ex_net_placed, PlayerTurn = playerTurn ex_net, Winner = 0\<rparr>,
      \<lparr>Board = board ex_net_placed, PlayerTurn = 3 - playerTurn ex_net, Winner = 0\<rparr>] \<and>
   movePiece 0 0 1 1 ex_net = (True, ex_net_moved) \<and> checkWin (board ex_net_moved) = 0 \<and>
   playerTurn ex_net_moved = 3 - playerTurn ex_net \<and>
   published ex_net_moved = published ex_net @
     [\<lparr>Board = board ex_net_moved, PlayerTurn = playerTurn ex_net, Winner = 0\<rparr>,
      \<lparr>Board = board ex_net_moved, PlayerTurn = playerTurn ex_net, Winner = 0\<rparr>,
      \<lparr>Board = board ex_net_moved, PlayerTurn = 3 - playerTurn ex_net, Winner = 0\<rparr>]"
proof -
  have t: "playerTurn ex_net = 1 \<or> playerTurn ex_net = 2"
    by (simp add: ex_net_def)
  from successful_action_publishes_three_snapshots
         [OF t, of 2 2 3 ex_net_placed 0 0 1 1 ex_net_moved]
    ex_net_place checkWin_ex_net_placed ex_net_move checkWin_ex_net_moved
  show ?thesis by simp
qed

lemma pieces_set_cell:
  assumes "g \<in> set (pieces (set_cell b r c st))"
  shows "g \<in> set st \<or> g \<in> set (pieces b)"
proof (cases "nat r < length b")
  case False
  with assms show ?thesis by (simp add: set_cell_def list_update_beyond)
next
  case True
  then have row: "b ! nat r \<in> set b" by simp
  from assms obtain rw stk where rw: "rw \<in> set (b[nat r := (b ! nat r)[nat c := st]])"
    and stk: "stk \<in> set rw" and g: "g \<in> set stk"
    by (auto simp: pieces_def set_cell_def)
  from rw have "rw = (b ! nat r)[nat c := st] \<or> rw \<in> set b"
    using set_update_subset_insert [of b "nat r"] by auto
  then show ?thesis
  proof
    assume "rw \<in> set b"
    with stk g show ?thesis by (auto simp: pieces_def)
  next
    assume "rw = (b ! nat r)[nat c := st]"
    with stk have "stk = st \<or> stk \<in> set (b ! nat r)"
      using set_update_subset_insert [of "b ! nat r" "nat c"] by auto
    with g row show ?thesis by (auto simp: pieces_def)
  qed
qed

lemma cell_pieces:
  assumes "wf_board b" "\<not> out_of_bounds r c" "g \<in> set (cell b r c)"
  shows "g \<in> set (pieces b)"
proof -
  have lr: "nat r < length b" using assms by (auto simp: wf_board_def out_of_bounds_def)
  then have row: "b ! nat r \<in> set b" by simp
  then have "length (b ! nat r) = 3" using assms by (simp add: wf_board_def list_all_iff)
  then have "b ! nat r ! nat c \<in> set (b ! nat r)"
    using assms by (auto simp: out_of_bounds_def)
  with row assms(3) show ?thesis by (auto simp: pieces_def cell_def)
qed

lemma owners_ok_set_cell:
  "owners_ok b \<Longrightarrow> \<forall>g \<in> set st. Owner g = 1 \<or> Owner g = 2 \<Longrightarrow> owners_ok (set_cell b r c st)"
  by (auto simp: owners_ok_def list_all_iff dest!: pieces_set_cell)

lemma owners_ok_cell:
  "owners_ok b \<Longrightarrow> wf_board b \<Longrightarrow> \<not> out_of_bounds r c \<Longrightarrow> g \<in> set (cell b r c) \<Longrightarrow>
   Owner g = 1 \<or> Owner g = 2"
  by (auto simp: owners_ok_def list_all_iff dest!: cell_pieces)

lemma owners_ok_placed:
  assumes "owners_ok b" "wf_board b" "\<not> out_of_bounds row col" "p = 1 \<or> p = 2"
  shows "owners_ok (set_cell b row col (cell b row col @ [\<lparr>Size = sz, Owner = p\<rparr>]))"
  using assms by (intro owners_ok_set_cell) (auto dest: owners_ok_cell)

lemma owners_ok_moved:
  assumes ok: "owners_ok b" and wf: "wf_board b" and src: "\<not> out_of_bounds fr fc"
    and dst: "\<not> out_of_bounds tr tc" and ne: "cell b fr fc \<noteq> []"
  shows "owners_ok (set_cell (set_cell b fr fc (butlast (cell b fr fc))) tr tc
           (cell (set_cell b fr fc (butlast (cell b fr fc))) tr tc @ [last (cell b fr fc)]))"
proof -
  let ?b1 = "set_cell b fr fc (butlast (cell b fr fc))"
  have ok1: "owners_ok ?b1"
    using ok wf src by (intro owners_ok_set_cell) (auto dest: owners_ok_cell in_set_butlastD)
  have wf1: "wf_board ?b1" using wf by (rule wf_board_set_cell)
  have "last (cell b fr fc) \<in> set (cell b fr fc)" using ne by simp
  then have top: "Owner (last (cell b fr fc)) = 1 \<or> Owner (last (cell b fr fc)) = 2"
    using ok wf src by (rule owners_ok_cell [rotated 3])
  show ?thesis
  proof (rule owners_ok_set_cell)
    show "owners_ok ?b1" by (rule ok1)
    show "\<forall>g \<in> set (cell ?b1 tr tc @ [last (cell b fr fc)]). Owner g = 1 \<or> Owner g = 2"
      using ok1 wf1 dst top by (auto dest: owners_ok_cell)
  qed
qed

lemma wf_owners_empty: "wf_board empty_board \<and> owners_ok empty_board"
  by (simp add: wf_board_def owners_ok_def pieces_def empty_board_def)

text \<open>One step of each program keeps the invariant.\<close>

lemma placePiece_inv:
  assumes inv: "wf_board (board s) \<and> owners_ok (board s) \<and> (playerTurn s = 1 \<or> playerTurn s = 2)"
    and p: "placePiece row col sz s = (ok, s')"
  shows "wf_board (board s') \<and> owners_ok (board s') \<and> (playerTurn s' = 1 \<or> playerTurn s' = 2)"
proof (cases ok)
  case False
  with p have "s' = s" by (simp add: placePiece_rejected)
  with inv show ?thesis by simp
next
  case True
  with p have a: "placePiece row col sz s = (True, s')" by simp
  note acc = placePiece_accepted [OF a]
  have "wf_board (board s')" using inv acc(2) by (simp add: wf_board_set_cell)
  moreover have "owners_ok (board s')"
    using inv acc(1) unfolding acc(2) by (intro owners_ok_placed) simp_all
  moreover have "playerTurn s' = 1 \<or> playerTurn s' = 2"
    using inv acc(3) by (auto simp: flip_turn)
  ultimately show ?thesis by simp
qed

lemma movePiece_inv:
  assumes inv: "wf_board (board s) \<and> owners_ok (board s) \<and> (playerTurn s = 1 \<or> playerTurn s = 2)"
    and m: "movePiece fr fc tr tc s = (ok, s')"
  shows "wf_board (board s') \<and> owners_ok (board s') \<and> (playerTurn s' = 1 \<or> playerTurn s' = 2)"
proof (cases ok)
  case False
  with m have "s' = s" by (simp add: movePiece_rejected)
  with inv show ?thesis by simp
next
  case True
  with m have a: "movePiece fr fc tr tc s = (True, s')" by simp
  note acc = movePiece_accepted [OF a]
  have "wf_board (board s')" using inv acc(2) by (simp add: wf_board_set_cell)
  moreover have "owners_ok (board s')"
    using inv acc(1) unfolding acc(2) by (intro owners_ok_moved) simp_all
  moreover have "playerTurn s' = 1 \<or> playerTurn s' = 2"
    using inv acc(3) by (auto simp: flip_turn)
  ultimately show ?thesis by simp
qed

lemma net_reachable_inv:
  "net_reachable s \<Longrightarrow>
   wf_board (board s) \<and> owners_ok (board s) \<and> (playerTurn s = 1 \<or> playerTurn s = 2)"
proof (induction rule: net_reachable.induct)
  case net_init
  show ?case using wf_owners_empty by (simp add: init_net_def)
next
  case net_fresh
  show ?case using wf_owners_empty by (simp add: init_net_def)
next
  case (net_place s row col sz)
  have "placePiece row col sz s = (fst (placePiece row col sz s), snd (placePiece row col sz s))"
    by simp
  with net_place.IH show ?case by (rule placePiece_inv)
next
  case (net_move s fromRow fromCol toRow toCol)
  have "movePiece fromRow fromCol toRow toCol s =
      (fst (movePiece fromRow fromCol toRow toCol s), snd (movePiece fromRow fromCol toRow toCol s))"
    by simp
  with net_move.IH show ?case by (rule movePiece_inv)
qed

text \<open>The standalone program: \<^verbatim>\<open>placePiece\<close>, \<^verbatim>\<open>movePiece\<close> and the loop body.\<close>

lemma placePiece_sa_inv:
  assumes inv: "wf_board (sa_board t) \<and> owners_ok (sa_board t)
      \<and> (sa_playerTurn t = 1 \<or> sa_playerTurn t = 2)"
    and p: "placePiece_sa row col sz t = Inr (ok, t')"
  shows "wf_board (sa_board t') \<and> owners_ok (sa_board t') \<and> sa_playerTurn t' = sa_playerTurn t"
proof (cases ok)
  case False
  with p have "t' = t" by (simp add: placePiece_sa_rejected)
  with inv show ?thesis by simp
next
  case True
  with p have a: "placePiece_sa row col sz t = Inr (True, t')" by simp
  note acc = placePiece_sa_accepted [OF a]
  have "wf_board (sa_board t')" using inv acc(2) by (simp add: wf_board_set_cell)
  moreover have "owners_ok (sa_board t')"
    using inv acc(1) unfolding acc(2) by (intro owners_ok_placed) simp_all
  ultimately show ?thesis using acc(3) by simp
qed

lemma movePiece_sa_inv:
  assumes inv: "wf_board (sa_board t) \<and> owners_ok (sa_board t)
      \<and> (sa_playerTurn t = 1 \<or> sa_playerTurn t = 2)"
    and m: "movePiece_sa fr fc tr tc t = (ok, t')"
  shows "wf_board (sa_board t') \<and> owners_ok (sa_board t') \<and> sa_playerTurn t' = sa_playerTurn t"
proof (cases ok)
  case False
  with m have "t' = t" by (simp add: movePiece_sa_rejected)
  with inv show ?thesis by simp
next
  case True
  with m have a: "movePiece_sa fr fc tr tc t = (True, t')" by simp
  note acc = movePiece_sa_accepted [OF a]
  have "wf_board (sa_board t')" using inv acc(2) by (simp add: wf_board_set_cell)
  moreover have "owners_ok (sa_board t')"
    using inv acc(1) unfolding acc(2) by (intro owners_ok_moved) simp_all
  ultimately show ?thesis using acc(3) by simp
qed

lemma after_action_turn:
  assumes "sa_playerTurn t = 1 \<or> sa_playerTurn t = 2"
  shows "after_action t = Continue t' \<Longrightarrow>
           checkWin (sa_board t) = 0 \<and> t' = t\<lparr>sa_playerTurn := 3 - sa_playerTurn t\<rparr>"
    and "after_action t = Exit w t' \<Longrightarrow> w = checkWin (sa_board t) \<and> w \<noteq> 0 \<and> t' = t"
  using assms by (auto simp: after_action_def Let_def flip_turn split: if_splits)

text \<open>The action of an iteration, as the pair the loop body tests.\<close>

lemma main_iter_rejected:
  "\<not> sa_accepted i t \<Longrightarrow> main_iter i t = Continue t' \<Longrightarrow> t' = t"
  "\<not> sa_accepted i t \<Longrightarrow> main_iter i t \<noteq> Exit w t'"
  by (cases i; auto split: sum.splits prod.splits if_splits
      dest: placePiece_sa_rejected movePiece_sa_rejected)+

lemma main_iter_accepted:
  assumes acc: "sa_accepted i t"
  shows "\<exists>t1. main_iter i t = after_action t1 \<and> sa_playerTurn t1 = sa_playerTurn t \<and>
          (wf_board (sa_board t) \<and> owners_ok (sa_board t)
             \<and> (sa_playerTurn t = 1 \<or> sa_playerTurn t = 2) \<longrightarrow>
           wf_board (sa_board t1) \<and> owners_ok (sa_board t1))"
proof (cases i)
  case ScanError
  with acc show ?thesis by simp
next
  case (Unknown a)
  with acc show ?thesis by simp
next
  case (Place row col sz)
  with acc obtain t1 where p: "placePiece_sa row col sz t = Inr (True, t1)"
    by (auto split: sum.splits prod.splits)
  have "main_iter i t = after_action t1" using Place p by simp
  moreover have "sa_playerTurn t1 = sa_playerTurn t"
    by (rule placePiece_sa_accepted(3) [OF p])
  moreover have "wf_board (sa_board t1) \<and> owners_ok (sa_board t1)"
    if "wf_board (sa_board t) \<and> owners_ok (sa_board t)
          \<and> (sa_playerTurn t = 1 \<or> sa_playerTurn t = 2)"
    using placePiece_sa_inv [OF that p] by simp
  ultimately show ?thesis by blast
next
  case (Move row col toRow toCol)
  with acc obtain t1 where m: "movePiece_sa row col toRow toCol t = (True, t1)"
    by (cases "movePiece_sa row col toRow toCol t") auto
  have "main_iter i t = after_action t1" using Move m by simp
  moreover have "sa_playerTurn t1 = sa_playerTurn t"
    by (rule movePiece_sa_accepted(3) [OF m])
  moreover have "wf_board (sa_board t1) \<and> owners_ok (sa_board t1)"
    if "wf_board (sa_board t) \<and> owners_ok (sa_board t)
          \<and> (sa_playerTurn t = 1 \<or> sa_playerTurn t = 2)"
    using movePiece_sa_inv [OF that m] by simp
  ultimately show ?thesis by blast
qed

text \<open>What an iteration of the standalone loop does to the turn and to the invariant.\<close>

lemma main_iter_Continue:
  assumes turn: "sa_playerTurn t = 1 \<or> sa_playerTurn t = 2"
    and c: "main_iter i t = Continue t'"
  shows "sa_playerTurn t' = (if sa_accepted i t then 3 - sa_playerTurn t else sa_playerTurn t)"
    and "sa_accepted i t \<longrightarrow> checkWin (sa_board t') = 0"
    and "wf_board (sa_board t) \<and> owners_ok (sa_board t) \<Longrightarrow>
         wf_board (sa_board t') \<and> owners_ok (sa_board t')"
proof -
  have "sa_playerTurn t' = (if sa_accepted i t then 3 - sa_playerTurn t else sa_playerTurn t)
      \<and> (sa_accepted i t \<longrightarrow> checkWin (sa_board t') = 0)
      \<and> (wf_board (sa_board t) \<and> owners_ok (sa_board t) \<longrightarrow>
           wf_board (sa_board t') \<and> owners_ok (sa_board t'))"
  proof (cases "sa_accepted i t")
    case False
    from this c have "t' = t" by (rule main_iter_rejected(1))
    with False show ?thesis by simp
  next
    case True
    from main_iter_accepted [OF this] turn
    obtain t1 where a: "main_iter i t = after_action t1"
      and t1: "sa_playerTurn t1 = sa_playerTurn t"
      and i1: "wf_board (sa_board t) \<and> owners_ok (sa_board t) \<longrightarrow>
                 wf_board (sa_board t1) \<and> owners_ok (sa_board t1)"
      by blast
    from t1 turn have turn1: "sa_playerTurn t1 = 1 \<or> sa_playerTurn t1 = 2" by simp
    from a c have "after_action t1 = Continue t'" by simp
    from after_action_turn(1) [OF turn1 this] True t1 i1 show ?thesis by simp
  qed
  then show "sa_playerTurn t' = (if sa_accepted i t then 3 - sa_playerTurn t else sa_playerTurn t)"
    and "sa_accepted i t \<longrightarrow> checkWin (sa_board t') = 0"
    and "wf_board (sa_board t) \<and> owners_ok (sa_board t) \<Longrightarrow>
         wf_board (sa_board t') \<and> owners_ok (sa_board t')"
    by simp_all
qed

lemma main_iter_Exit:
  assumes turn: "sa_playerTurn t = 1 \<or> sa_playerTurn t = 2"
    and e: "main_iter i t = Exit w t'"
  shows "sa_accepted i t \<and> w = checkWin (sa_board t') \<and> w \<noteq> 0
           \<and> sa_playerTurn t' = sa_playerTurn t"
    and "wf_board (sa_board t) \<and> owners_ok (sa_board t) \<Longrightarrow>
         wf_board (sa_board t') \<and> owners_ok (sa_board t')"
proof -
  have "(sa_accepted i t \<and> w = checkWin (sa_board t') \<and> w \<noteq> 0
           \<and> sa_playerTurn t' = sa_playerTurn t)
      \<and> (wf_board (sa_board t) \<and> owners_ok (sa_board t) \<longrightarrow>
           wf_board (sa_board t') \<and> owners_ok (sa_board t'))"
  proof (cases "sa_accepted i t")
    case False
    then have "main_iter i t \<noteq> Exit w t'" by (rule main_iter_rejected(2))
    with e show ?thesis by simp
  next
    case True
    from main_iter_accepted [OF this] turn
    obtain t1 where a: "main_iter i t = after_action t1"
      and t1: "sa_playerTurn t1 = sa_playerTurn t"
      and i1: "wf_board (sa_board t) \<and> owners_ok (sa_board t) \<longrightarrow>
                 wf_board (sa_board t1) \<and> owners_ok (sa_board t1)"
      by blast
    from t1 turn have turn1: "sa_playerTurn t1 = 1 \<or> sa_playerTurn t1 = 2" by simp
    from a e have "after_action t1 = Exit w t'" by simp
    from after_action_turn(2) [OF turn1 this] True t1 i1 show ?thesis by simp
  qed
  then show "sa_accepted i t \<and> w = checkWin (sa_board t') \<and> w \<noteq> 0
           \<and> sa_playerTurn t' = sa_playerTurn t"
    and "wf_board (sa_board t) \<and> owners_ok (sa_board t) \<Longrightarrow>
         wf_board (sa_board t') \<and> owners_ok (sa_board t')"
    by simp_all
qed

lemma sa_reachable_inv:
  "sa_reachable t \<Longrightarrow>
   wf_board (sa_board t) \<and> owners_ok (sa_board t) \<and> (sa_playerTurn t = 1 \<or> sa_playerTurn t = 2)"
proof (induction rule: sa_reachable.induct)
  case sa_init
  show ?case using wf_owners_empty by (simp add: init_sa_def)
next
  case (sa_continue t i t')
  then have turn: "sa_playerTurn t = 1 \<or> sa_playerTurn t = 2" by simp
  note c = main_iter_Continue [OF turn sa_continue.hyps(2)]
  from c(1) c(3) sa_continue.IH show ?case by (auto split: if_splits)
next
  case (sa_exit t i w t')
  then have turn: "sa_playerTurn t = 1 \<or> sa_playerTurn t = 2" by simp
  note e = main_iter_Exit [OF turn sa_exit.hyps(2)]
  from e(1) e(2) sa_exit.IH show ?case by auto
qed

lemma ex_win_place: "placePiece 0 2 1 ex_win_net = (True, ex_won_net)"
  by (simp add: placePiece_def ex_win_net_def ex_won_net_def ex_win_board_def ex_won_board_def
      eval_simps)

lemma checkWin_ex_won: "checkWin ex_won_board = 1"
  by (simp add: ex_won_board_def eval_simps)

lemma ex_sa_place: "placePiece_sa 2 2 3 ex_sa = Inr (True, ex_sa_placed)"
  apply (simp add: placePiece_sa_def ex_sa_def ex_sa_placed_def ex_board_def count_of_def
      wrap64_def eval_simps)
  apply (auto simp: fun_eq_iff)
  done

lemma ex_win_sa_place: "placePiece_sa 0 2 1 ex_win_sa = Inr (True, ex_won_sa)"
  apply (simp add: placePiece_sa_def ex_win_sa_def ex_won_sa_def ex_win_board_def ex_won_board_def
      count_of_def wrap64_def eval_simps)
  apply (auto simp: fun_eq_iff)
  done

lemma placePiece_turn:
  assumes "playerTurn s = 1 \<or> playerTurn s = 2" "placePiece row col sz s = (ok, s')"
  shows "playerTurn s' = (if ok \<and> checkWin (board s') = 0 then 3 - playerTurn s else playerTurn s)"
proof (cases ok)
  case False
  with assms(2) have "s' = s" by (simp add: placePiece_rejected)
  with False show ?thesis by simp
next
  case True
  with assms(2) have "placePiece row col sz s = (True, s')" by simp
  from placePiece_accepted(3) [OF this] True flip_turn [OF assms(1)] show ?thesis by simp
qed

lemma movePiece_turn:
  assumes "playerTurn s = 1 \<or> playerTurn s = 2" "movePiece fr fc tr tc s = (ok, s')"
  shows "playerTurn s' = (if ok \<and> checkWin (board s') = 0 then 3 - playerTurn s else playerTurn s)"
proof (cases ok)
  case False
  with assms(2) have "s' = s" by (simp add: movePiece_rejected)
  with False show ?thesis by simp
next
  case True
  with assms(2) have "movePiece fr fc tr tc s = (True, s')" by simp
  from movePiece_accepted(3) [OF this] True flip_turn [OF assms(1)] show ?thesis by simp
qed

section \<open>The turn\<close>

text \<open>
  C5: in every state either program reaches by local actions the turn is 1 or 2. With
  the turn 1 or 2, \<^verbatim>\<open>placePiece\<close> and \<^verbatim>\<open>movePiece\<close> of the networked terminal leave the
  turn at \<open>3 - current\<close> when they return true and the new board has no winner, and
  unchanged when they return false or the new board has a winner. An iteration of the
  standalone loop that continues has flipped the turn exactly when its action was accepted
  (and then the board has no winner); one that exits after a win leaves the turn as it was.
\<close>

theorem turn_policy:
  "(net_reachable s0 \<longrightarrow> playerTurn s0 = 1 \<or> playerTurn s0 = 2) \<and>
   (sa_reachable t0 \<longrightarrow> sa_playerTurn t0 = 1 \<or> sa_playerTurn t0 = 2) \<and>
   ((playerTurn s = 1 \<or> playerTurn s = 2) \<and> placePiece row col sz s = (ok, s') \<longrightarrow>
      playerTurn s' = (if ok \<and> checkWin (board s') = 0 then 3 - playerTurn s else playerTurn s)) \<and>
   ((playerTurn s = 1 \<or> playerTurn s = 2) \<and>
    movePiece fromRow fromCol toRow toCol s = (ok', s'') \<longrightarrow>
      playerTurn s'' = (if ok' \<and> checkWin (board s'') = 0 then 3 - playerTurn s else playerTurn s)) \<and>
   ((sa_playerTurn t = 1 \<or> sa_playerTurn t = 2) \<and> main_iter i t = Continue t' \<longrightarrow>
      sa_playerTurn t' = (if sa_accepted i t then 3 - sa_playerTurn t else sa_playerTurn t) \<and>
      (sa_accepted i t \<longrightarrow> checkWin (sa_board t') = 0)) \<and>
   ((sa_playerTurn t = 1 \<or> sa_playerTurn t = 2) \<and> main_iter i t = Exit w t'' \<longrightarrow>
      sa_accepted i t \<and> w = checkWin (sa_board t'') \<and> w \<noteq> 0 \<and>
      sa_playerTurn t'' = sa_playerTurn t)"
proof -
  have 1: "net_reachable s0 \<longrightarrow> playerTurn s0 = 1 \<or> playerTurn s0 = 2"
    by (simp add: net_reachable_inv)
  have 2: "sa_reachable t0 \<longrightarrow> sa_playerTurn t0 = 1 \<or> sa_playerTurn t0 = 2"
    by (simp add: sa_reachable_inv)
  have 3: "(playerTurn s = 1 \<or> playerTurn s = 2) \<and> placePiece row col sz s = (ok, s') \<longrightarrow>
      playerTurn s' = (if ok \<and> checkWin (board s') = 0 then 3 - playerTurn s else playerTurn s)"
    using placePiece_turn [of s row col sz ok s'] by blast
  have 4: "(playerTurn s = 1 \<or> playerTurn s = 2) \<and>
      movePiece fromRow fromCol toRow toCol s = (ok', s'') \<longrightarrow>
      playerTurn s'' = (if ok' \<and> checkWin (board s'') = 0 then 3 - playerTurn s else playerTurn s)"
    using movePiece_turn [of s fromRow fromCol toRow toCol ok' s''] by blast
  have 5: "(sa_playerTurn t = 1 \<or> sa_playerTurn t = 2) \<and> main_iter i t = Continue t' \<longrightarrow>
      sa_playerTurn t' = (if sa_accepted i t then 3 - sa_playerTurn t else sa_playerTurn t) \<and>
      (sa_accepted i t \<longrightarrow> checkWin (sa_board t') = 0)"
    using main_iter_Continue(1,2) [of t i t'] by blast
  have 6: "(sa_playerTurn t = 1 \<or> sa_playerTurn t = 2) \<and> main_iter i t = Exit w t'' \<longrightarrow>
      sa_accepted i t \<and> w = checkWin (sa_board t'') \<and> w \<noteq> 0 \<and>
      sa_playerTurn t'' = sa_playerTurn t"
    using main_iter_Exit(1) [of t i w t''] by blast
  from 1 2 3 4 5 6 show ?thesis by blast
qed

lemma checkWin_ex_placed: "checkWin (sa_board ex_sa_placed) = 0"
  by (simp add: ex_sa_placed_def eval_simps)

lemma ex_sa_iter: "main_iter (Place 2 2 3) ex_sa = Continue (ex_sa_placed\<lparr>sa_playerTurn := 2\<rparr>)"
  by (simp add: ex_sa_place after_action_def checkWin_ex_placed wrap64_def)
     (simp add: ex_sa_placed_def)

lemma ex_win_sa_iter: "main_iter (Place 0 2 1) ex_win_sa = Exit 1 ex_won_sa"
  by (simp add: ex_win_sa_place after_action_def) (simp add: ex_won_sa_def checkWin_ex_won)

text \<open>
  The witness: from the example states player 1 places a piece without winning (the turn
  becomes 2), places a piece that completes row 0 (the turn stays 1), and is rejected
  (the turn stays 1).
\<close>

theorem turn_policy_witness:
  "playerTurn init_net = 1 \<and> sa_playerTurn init_sa = 1 \<and>
   placePiece 2 2 3 ex_net = (True, ex_net_placed) \<and> playerTurn ex_net = 1 \<and>
   checkWin (board ex_net_placed) = 0 \<and> playerTurn ex_net_placed = 2 \<and>
   movePiece 0 0 1 1 ex_net = (True, ex_net_moved) \<and> playerTurn ex_net_moved = 2 \<and>
   placePiece 0 2 1 ex_win_net = (True, ex_won_net) \<and> playerTurn ex_win_net = 1 \<and>
   checkWin (board ex_won_net) = 1 \<and> playerTurn ex_won_net = 1 \<and>
   placePiece 0 0 1 ex_net = (False, ex_net) \<and>
   main_iter (Place 2 2 3) ex_sa = Continue (ex_sa_placed\<lparr>sa_playerTurn := 2\<rparr>) \<and>
   sa_playerTurn ex_sa = 1 \<and> sa_accepted (Place 2 2 3) ex_sa \<and>
   main_iter (Place 0 2 1) ex_win_sa = Exit 1 ex_won_sa \<and> sa_playerTurn ex_won_sa = 1"
proof -
  have t1: "playerTurn ex_net = 1" and t2: "playerTurn ex_win_net = 1"
    and t3: "sa_playerTurn ex_sa = 1" and t4: "sa_playerTurn ex_win_sa = 1"
    by (simp_all add: ex_net_def ex_win_net_def ex_sa_def ex_win_sa_def)
  have rej: "placePiece 0 0 1 ex_net = (False, ex_net)"
    by (simp add: placePiece_def ex_net_def ex_board_def eval_simps)
  have w: "checkWin (board ex_won_net) = 1"
    by (simp add: ex_won_net_def checkWin_ex_won)
  have acc: "sa_accepted (Place 2 2 3) ex_sa" by (simp add: ex_sa_place)
  from turn_policy [of init_net init_sa ex_net 2 2 3 True ex_net_placed 0 0 1 1 True ex_net_moved
      ex_sa "Place 2 2 3" "ex_sa_placed\<lparr>sa_playerTurn := 2\<rparr>" 1 ex_won_sa]
    turn_policy [of init_net init_sa ex_win_net 0 2 1 True ex_won_net 0 0 1 1 True ex_net_moved
      ex_win_sa "Place 0 2 1" "ex_sa_placed" 1 ex_won_sa]
    net_init sa_init t1 t2 t3 t4 rej w acc
    ex_net_place ex_net_move ex_win_place ex_sa_iter ex_win_sa_iter
    checkWin_ex_net_placed checkWin_ex_net_moved
  show ?thesis by (simp add: init_net_def init_sa_def)
qed

lemma placed_top_intro:
  assumes wf: "wf_board b" and inb: "\<not> out_of_bounds row col"
  shows "placed_top b row col g (set_cell b row col (cell b row col @ [g]))"
proof -
  have b: "0 \<le> row" "row < 3" "0 \<le> col" "col < 3"
    using inb by (auto simp: out_of_bounds_def)
  show ?thesis
    unfolding placed_top_def using wf b
    by (auto simp: cell_set_cell_same cell_set_cell_other)
qed

section \<open>Placements\<close>

text \<open>
  C8: \<^verbatim>\<open>placePiece\<close> takes a row, a column and a size, and no owner. A placement that
  either program accepts, on a 3x3 board, appends to the cell one piece whose owner is
  the turn at the moment of the call, and leaves every other cell as it was. On every
  board reached by local actions from a fresh game all pieces are owned by player 1 or 2.
\<close>

theorem placed_piece_owned_by_current_turn:
  "(wf_board (board s) \<and> placePiece row col sz s = (True, s') \<longrightarrow>
      placed_top (board s) row col \<lparr>Size = sz, Owner = playerTurn s\<rparr> (board s')) \<and>
   (wf_board (sa_board t) \<and> placePiece_sa row col sz t = Inr (True, t') \<longrightarrow>
      placed_top (sa_board t) row col \<lparr>Size = sz, Owner = sa_playerTurn t\<rparr> (sa_board t')) \<and>
   (net_reachable s0 \<longrightarrow> owners_ok (board s0)) \<and>
   (sa_reachable t0 \<longrightarrow> owners_ok (sa_board t0))"
proof (intro conjI impI; (elim conjE)?)
  assume wf: "wf_board (board s)" and p: "placePiece row col sz s = (True, s')"
  from placePiece_accepted(1) [OF p] wf
  show "placed_top (board s) row col \<lparr>Size = sz, Owner = playerTurn s\<rparr> (board s')"
    unfolding placePiece_accepted(2) [OF p] by (intro placed_top_intro) simp_all
next
  assume wf: "wf_board (sa_board t)" and p: "placePiece_sa row col sz t = Inr (True, t')"
  from placePiece_sa_accepted(1) [OF p] wf
  show "placed_top (sa_board t) row col \<lparr>Size = sz, Owner = sa_playerTurn t\<rparr> (sa_board t')"
    unfolding placePiece_sa_accepted(2) [OF p] by (intro placed_top_intro) simp_all
next
  assume "net_reachable s0"
  then show "owners_ok (board s0)" by (simp add: net_reachable_inv)
next
  assume "sa_reachable t0"
  then show "owners_ok (sa_board t0)" by (simp add: sa_reachable_inv)
qed

lemma wf_ex_boards: "wf_board (board ex_net)" "wf_board (sa_board ex_sa)"
  by (simp_all add: ex_net_def ex_sa_def wf_ex_board)

lemma init_sa_iter: "main_iter (Place 0 0 2) init_sa = Continue (ex_sa\<lparr>sa_playerTurn := 2\<rparr>)"
  apply (simp add: placePiece_sa_def after_action_def count_of_def wrap64_def ex_sa_def
      ex_board_def eval_simps)
  apply (auto simp: fun_eq_iff)
  done

lemma init_net_place:
  "board (snd (placePiece 0 0 2 init_net)) = ex_board \<and> playerTurn (snd (placePiece 0 0 2 init_net)) = 2"
  by (simp add: placePiece_def ex_board_def wrap64_def eval_simps)

text \<open>
  The witness: player 1 places a large piece on (2,2) in both example states, and the
  states after the first placement of a fresh game are reachable.
\<close>

theorem placed_piece_owned_by_current_turn_witness:
  "placePiece 2 2 3 ex_net = (True, ex_net_placed) \<and> playerTurn ex_net = 1 \<and>
   placed_top (board ex_net) 2 2 \<lparr>Size = 3, Owner = 1\<rparr> (board ex_net_placed) \<and>
   placePiece_sa 2 2 3 ex_sa = Inr (True, ex_sa_placed) \<and> sa_playerTurn ex_sa = 1 \<and>
   placed_top (sa_board ex_sa) 2 2 \<lparr>Size = 3, Owner = 1\<rparr> (sa_board ex_sa_placed) \<and>
   net_reachable (snd (placePiece 0 0 2 init_net)) \<and> owners_ok ex_board \<and>
   sa_reachable (ex_sa\<lparr>sa_playerTurn := 2\<rparr>)"
proof -
  have r1: "net_reachable (snd (placePiece 0 0 2 init_net))"
    by (intro net_place net_init)
  have r2: "sa_reachable (ex_sa\<lparr>sa_playerTurn := 2\<rparr>)"
    using sa_init init_sa_iter by (rule sa_continue)
  have t: "playerTurn ex_net = 1" "sa_playerTurn ex_sa = 1"
    by (simp_all add: ex_net_def ex_sa_def)
  from placed_piece_owned_by_current_turn [of ex_net 2 2 3 ex_net_placed ex_sa ex_sa_placed
      "snd (placePiece 0 0 2 init_net)" "ex_sa\<lparr>sa_playerTurn := 2\<rparr>"]
    wf_ex_boards ex_net_place ex_sa_place r1 r2 t init_net_place
  show ?thesis by simp
qed

lemma six_smalls_eval:
  "board six_smalls = six_smalls_board \<and> playerTurn six_smalls = 1"
  by (simp add: six_smalls_def six_smalls_board_def placePiece_def wrap64_def eval_simps)

lemma six_smalls_reachable: "net_reachable six_smalls"
  unfolding six_smalls_def by (intro net_place net_init)

text \<open>
  C2 as stated fails on the networked terminal, which keeps no piece count: from a fresh
  session six accepted placements lead to a board with three small pieces of player 1,
  and a fourth small piece of player 1 is accepted; and size 4 on the empty cell (0,0) of
  a fresh board is rejected although the cell is in bounds and empty and no piece of that
  size was ever placed.
\<close>

theorem place_rejected_iff_counterexample:
  "net_reachable six_smalls \<and> playerTurn six_smalls = 1 \<and>
   length (filter (\<lambda>g. Owner g = 1 \<and> Size g = 1) (pieces (board six_smalls))) = 3 \<and>
   fst (placePiece 2 1 1 six_smalls) \<and>
   placePiece 0 0 4 init_net = (False, init_net) \<and>
   \<not> out_of_bounds 0 0 \<and> \<not> top_blocks (board init_net) 0 0 4 \<and> pieces (board init_net) = []"
proof -
  have "fst (placePiece 2 1 1 six_smalls)"
    by (simp add: placePiece_def six_smalls_eval six_smalls_board_def cell_def Let_def)
  moreover have "length (filter (\<lambda>g. Owner g = 1 \<and> Size g = 1) (pieces (board six_smalls))) = 3"
    by (simp add: six_smalls_eval six_smalls_board_def pieces_def)
  moreover have "placePiece 0 0 4 init_net = (False, init_net)"
    by (simp add: placePiece_def)
  moreover have "\<not> out_of_bounds 0 0 \<and> \<not> top_blocks (board init_net) 0 0 4
      \<and> pieces (board init_net) = []"
    by (simp add: out_of_bounds_def top_blocks_def pieces_def eval_simps)
  ultimately show ?thesis
    using six_smalls_reachable six_smalls_eval by simp
qed

lemma placePiece_rejected_iff:
  "placePiece row col sz s = (False, s) \<longleftrightarrow>
     sz < 1 \<or> sz > 3 \<or> out_of_bounds row col \<or> top_blocks (board s) row col sz"
  by (auto simp: placePiece_def out_of_bounds_def top_blocks_def Let_def)

lemma placePiece_sa_rejected_iff:
  "placePiece_sa row col sz t = Inr (False, t) \<longleftrightarrow>
     out_of_bounds row col \<or> budget (pieceCount t) (sa_playerTurn t) sz \<le> 0
     \<or> top_blocks (sa_board t) row col sz"
  by (auto simp: placePiece_sa_def out_of_bounds_def top_blocks_def budget_def Let_def
      split: option.splits)

lemma placePiece_sa_accepts:
  assumes "pieceCount t (sa_playerTurn t) \<noteq> None" "\<not> out_of_bounds row col"
    "count_of (pieceCount t) (sa_playerTurn t) sz < 3" "\<not> top_blocks (sa_board t) row col sz"
  shows "\<exists>t'. placePiece_sa row col sz t = Inr (True, t')"
  using assms
  by (auto simp: placePiece_sa_def out_of_bounds_def top_blocks_def Let_def)

lemma budget_after_place:
  assumes p: "placePiece_sa row col sz t = Inr (True, t')"
    and nn: "0 \<le> count_of (pieceCount t) (sa_playerTurn t) sz"
  shows "budget (pieceCount t') (sa_playerTurn t) sz = budget (pieceCount t) (sa_playerTurn t) sz - 1"
proof -
  note acc = placePiece_sa_accepted [OF p]
  from acc(1) nn have "wrap64 (count_of (pieceCount t) (sa_playerTurn t) sz + 1)
      = count_of (pieceCount t) (sa_playerTurn t) sz + 1"
    by (intro wrap64_id) auto
  with acc(4) show ?thesis by (simp add: budget_def)
qed

text \<open>
  C2, amended: the standalone terminal rejects a placement exactly when the coordinates
  are out of bounds, or the budget of the player to move for that size (three less the
  pieces of that size the player has placed) is used up, or the top of the target cell is
  at least as large as the piece; an accepted placement appends the piece, owned by the
  player to move, to the cell's stack and lowers that budget by one. The networked
  terminal keeps no budget: it rejects exactly when the size is not 1, 2 or 3, or the
  coordinates are out of bounds, or the top of the target cell is at least as large; an
  accepted placement appends the piece.
\<close>

theorem place_rejected_iff:
  "(placePiece_sa row col sz t = Inr (False, t) \<longleftrightarrow>
      out_of_bounds row col \<or> budget (pieceCount t) (sa_playerTurn t) sz \<le> 0
      \<or> top_blocks (sa_board t) row col sz) \<and>
   (pieceCount t (sa_playerTurn t) \<noteq> None \<and> placePiece_sa row col sz t \<noteq> Inr (False, t) \<longrightarrow>
      (\<exists>t'. placePiece_sa row col sz t = Inr (True, t'))) \<and>
   (wf_board (sa_board t) \<and> 0 \<le> count_of (pieceCount t) (sa_playerTurn t) sz \<and>
    placePiece_sa row col sz t = Inr (True, t') \<longrightarrow>
      placed_top (sa_board t) row col \<lparr>Size = sz, Owner = sa_playerTurn t\<rparr> (sa_board t') \<and>
      budget (pieceCount t') (sa_playerTurn t) sz
        = budget (pieceCount t) (sa_playerTurn t) sz - 1) \<and>
   (placePiece row col sz s = (False, s) \<longleftrightarrow>
      sz < 1 \<or> sz > 3 \<or> out_of_bounds row col \<or> top_blocks (board s) row col sz) \<and>
   (placePiece row col sz s \<noteq> (False, s) \<longrightarrow> fst (placePiece row col sz s)) \<and>
   (wf_board (board s) \<and> placePiece row col sz s = (True, s') \<longrightarrow>
      placed_top (board s) row col \<lparr>Size = sz, Owner = playerTurn s\<rparr> (board s'))"
proof -
  have 1: "placePiece_sa row col sz t = Inr (False, t) \<longleftrightarrow>
      out_of_bounds row col \<or> budget (pieceCount t) (sa_playerTurn t) sz \<le> 0
      \<or> top_blocks (sa_board t) row col sz"
    by (rule placePiece_sa_rejected_iff)
  have 2: "pieceCount t (sa_playerTurn t) \<noteq> None \<and> placePiece_sa row col sz t \<noteq> Inr (False, t) \<longrightarrow>
      (\<exists>t'. placePiece_sa row col sz t = Inr (True, t'))"
    using placePiece_sa_accepts [of t row col sz] unfolding 1
    by (auto simp: budget_def)
  have 3: "wf_board (sa_board t) \<and> 0 \<le> count_of (pieceCount t) (sa_playerTurn t) sz \<and>
    placePiece_sa row col sz t = Inr (True, t') \<longrightarrow>
      placed_top (sa_board t) row col \<lparr>Size = sz, Owner = sa_playerTurn t\<rparr> (sa_board t') \<and>
      budget (pieceCount t') (sa_playerTurn t) sz
        = budget (pieceCount t) (sa_playerTurn t) sz - 1"
  proof (intro impI; elim conjE)
    assume wf: "wf_board (sa_board t)" and nn: "0 \<le> count_of (pieceCount t) (sa_playerTurn t) sz"
      and p: "placePiece_sa row col sz t = Inr (True, t')"
    from placePiece_sa_accepted(1) [OF p] wf
    have "placed_top (sa_board t) row col \<lparr>Size = sz, Owner = sa_playerTurn t\<rparr> (sa_board t')"
      unfolding placePiece_sa_accepted(2) [OF p] by (intro placed_top_intro) simp_all
    with budget_after_place [OF p nn]
    show "placed_top (sa_board t) row col \<lparr>Size = sz, Owner = sa_playerTurn t\<rparr> (sa_board t') \<and>
      budget (pieceCount t') (sa_playerTurn t) sz
        = budget (pieceCount t) (sa_playerTurn t) sz - 1" by simp
  qed
  have 4: "placePiece row col sz s = (False, s) \<longleftrightarrow>
      sz < 1 \<or> sz > 3 \<or> out_of_bounds row col \<or> top_blocks (board s) row col sz"
    by (rule placePiece_rejected_iff)
  have 5: "placePiece row col sz s \<noteq> (False, s) \<longrightarrow> fst (placePiece row col sz s)"
  proof (cases "placePiece row col sz s")
    case (Pair ok s1)
    show ?thesis
    proof (cases ok)
      case True
      with Pair show ?thesis by simp
    next
      case False
      with Pair have "s1 = s" by (simp add: placePiece_rejected)
      with Pair False show ?thesis by simp
    qed
  qed
  have 6: "wf_board (board s) \<and> placePiece row col sz s = (True, s') \<longrightarrow>
      placed_top (board s) row col \<lparr>Size = sz, Owner = playerTurn s\<rparr> (board s')"
  proof (intro impI; elim conjE)
    assume wf: "wf_board (board s)" and p: "placePiece row col sz s = (True, s')"
    from placePiece_accepted(1) [OF p] wf
    show "placed_top (board s) row col \<lparr>Size = sz, Owner = playerTurn s\<rparr> (board s')"
      unfolding placePiece_accepted(2) [OF p] by (intro placed_top_intro) simp_all
  qed
  from 1 2 3 4 5 6 show ?thesis by blast
qed

lemma ex_budgets:
  "budget (pieceCount ex_sa) 1 3 = 3" "budget (pieceCount ex_sa_placed) 1 3 = 2"
  "budget (pieceCount ex_won_sa) 1 1 = 0"
  by (simp_all add: budget_def count_of_def ex_sa_def ex_sa_placed_def ex_won_sa_def)

text \<open>
  The witness: in the example states a large piece on the empty cell (2,2) is accepted
  by both programs and lowers the standalone budget from 3 to 2; a fourth small piece
  of player 1 is rejected by the standalone program, whose budget for it is 0.
\<close>

theorem place_rejected_iff_witness:
  "placePiece_sa 2 2 3 ex_sa = Inr (True, ex_sa_placed) \<and> sa_playerTurn ex_sa = 1 \<and>
   placed_top (sa_board ex_sa) 2 2 \<lparr>Size = 3, Owner = 1\<rparr> (sa_board ex_sa_placed) \<and>
   budget (pieceCount ex_sa) 1 3 = 3 \<and> budget (pieceCount ex_sa_placed) 1 3 = 2 \<and>
   placePiece 2 2 3 ex_net = (True, ex_net_placed) \<and> playerTurn ex_net = 1 \<and>
   placed_top (board ex_net) 2 2 \<lparr>Size = 3, Owner = 1\<rparr> (board ex_net_placed) \<and>
   sa_playerTurn ex_won_sa = 1 \<and> budget (pieceCount ex_won_sa) 1 1 = 0 \<and>
   placePiece_sa 2 2 1 ex_won_sa = Inr (False, ex_won_sa) \<and>
   placePiece 0 0 4 init_net = (False, init_net)"
proof -
  have t: "playerTurn ex_net = 1" "sa_playerTurn ex_sa = 1" "sa_playerTurn ex_won_sa = 1"
    by (simp_all add: ex_net_def ex_sa_def ex_won_sa_def)
  have c: "0 \<le> count_of (pieceCount ex_sa) (sa_playerTurn ex_sa) 3"
    by (simp add: count_of_def ex_sa_def)
  have r: "placePiece 0 0 4 init_net = (False, init_net)"
    using place_rejected_iff [where row = 0 and col = 0 and sz = 4 and s = init_net]
    by simp
  from place_rejected_iff [where row = 2 and col = 2 and sz = 3 and t = ex_sa
      and t' = ex_sa_placed and s = ex_net and s' = ex_net_placed]
    place_rejected_iff [where row = 2 and col = 2 and sz = 1 and t = ex_won_sa] r
    wf_ex_boards ex_sa_place ex_net_place t c ex_budgets
  show ?thesis by simp
qed

text \<open>
  C10: the networked \<^verbatim>\<open>placePiece\<close> rejects every size below 1 or above 3, whatever the
  board. The standalone \<^verbatim>\<open>placePiece\<close> has no such check: a piece of such a size is
  accepted and appended whenever the cell is in bounds, the player to move has placed
  fewer than three pieces of that size, and the top of the cell is smaller (or the cell
  is empty); the initial piece counts are 0 for every such size. On a fresh board sizes 4
  and 0 are accepted on cell (0,0).
\<close>

theorem standalone_accepts_sizes_outside_domain:
  "(sz < 1 \<or> sz > 3 \<longrightarrow> placePiece row col sz s = (False, s)) \<and>
   ((sz < 1 \<or> sz > 3) \<and> wf_board (sa_board t) \<and> \<not> out_of_bounds row col \<and>
    pieceCount t (sa_playerTurn t) \<noteq> None \<and> count_of (pieceCount t) (sa_playerTurn t) sz < 3 \<and>
    \<not> top_blocks (sa_board t) row col sz \<longrightarrow>
      (\<exists>t'. placePiece_sa row col sz t = Inr (True, t') \<and>
            placed_top (sa_board t) row col \<lparr>Size = sz, Owner = sa_playerTurn t\<rparr> (sa_board t'))) \<and>
   (sz < 1 \<or> sz > 3 \<longrightarrow> count_of (pieceCount init_sa) p sz = 0) \<and>
   (\<exists>t'. placePiece_sa 0 0 4 init_sa = Inr (True, t') \<and>
         cell (sa_board t') 0 0 = [\<lparr>Size = 4, Owner = 1\<rparr>]) \<and>
   (\<exists>t'. placePiece_sa 0 0 0 init_sa = Inr (True, t') \<and>
         cell (sa_board t') 0 0 = [\<lparr>Size = 0, Owner = 1\<rparr>])"
proof -
  have 1: "sz < 1 \<or> sz > 3 \<longrightarrow> placePiece row col sz s = (False, s)"
    by (simp add: placePiece_rejected_iff)
  have 2: "(sz < 1 \<or> sz > 3) \<and> wf_board (sa_board t) \<and> \<not> out_of_bounds row col \<and>
    pieceCount t (sa_playerTurn t) \<noteq> None \<and> count_of (pieceCount t) (sa_playerTurn t) sz < 3 \<and>
    \<not> top_blocks (sa_board t) row col sz \<longrightarrow>
      (\<exists>t'. placePiece_sa row col sz t = Inr (True, t') \<and>
            placed_top (sa_board t) row col \<lparr>Size = sz, Owner = sa_playerTurn t\<rparr> (sa_board t'))"
  proof (intro impI; elim conjE)
    assume wf: "wf_board (sa_board t)" and inb: "\<not> out_of_bounds row col"
      and pc: "pieceCount t (sa_playerTurn t) \<noteq> None"
      and cnt: "count_of (pieceCount t) (sa_playerTurn t) sz < 3"
      and top: "\<not> top_blocks (sa_board t) row col sz"
    from placePiece_sa_accepts [OF pc inb cnt top]
    obtain t' where p: "placePiece_sa row col sz t = Inr (True, t')" by blast
    from wf inb
    have "placed_top (sa_board t) row col \<lparr>Size = sz, Owner = sa_playerTurn t\<rparr> (sa_board t')"
      unfolding placePiece_sa_accepted(2) [OF p] by (rule placed_top_intro)
    with p show "\<exists>t'. placePiece_sa row col sz t = Inr (True, t') \<and>
            placed_top (sa_board t) row col \<lparr>Size = sz, Owner = sa_playerTurn t\<rparr> (sa_board t')"
      by blast
  qed
  have 3: "sz < 1 \<or> sz > 3 \<longrightarrow> count_of (pieceCount init_sa) p sz = 0"
    by (auto simp: count_of_def init_sa_def)
  have 4: "\<exists>t'. placePiece_sa 0 0 4 init_sa = Inr (True, t') \<and>
         cell (sa_board t') 0 0 = [\<lparr>Size = 4, Owner = 1\<rparr>]"
    by (simp add: placePiece_sa_def count_of_def eval_simps)
  have 5: "\<exists>t'. placePiece_sa 0 0 0 init_sa = Inr (True, t') \<and>
         cell (sa_board t') 0 0 = [\<lparr>Size = 0, Owner = 1\<rparr>]"
    by (simp add: placePiece_sa_def count_of_def eval_simps)
  from 1 2 3 4 5 show ?thesis by blast
qed

text \<open>
  The witness: with a large piece of player 1 on (2,2), the standalone program accepts
  size 4 on top of it; the networked program rejects the same call.
\<close>

theorem standalone_accepts_sizes_outside_domain_witness:
  "placePiece 2 2 4 ex_net_placed = (False, ex_net_placed) \<and>
   cell (sa_board ex_sa_placed) 2 2 = [\<lparr>Size = 3, Owner = 1\<rparr>] \<and>
   (\<exists>t'. placePiece_sa 2 2 4 ex_sa_placed = Inr (True, t') \<and>
         placed_top (sa_board ex_sa_placed) 2 2 \<lparr>Size = 4, Owner = 1\<rparr> (sa_board t')) \<and>
   count_of (pieceCount init_sa) 1 4 = 0"
proof -
  have a: "wf_board (sa_board ex_sa_placed)" "\<not> out_of_bounds 2 2"
    "pieceCount ex_sa_placed (sa_playerTurn ex_sa_placed) \<noteq> None"
    "count_of (pieceCount ex_sa_placed) (sa_playerTurn ex_sa_placed) 4 < 3"
    "\<not> top_blocks (sa_board ex_sa_placed) 2 2 4"
    "cell (sa_board ex_sa_placed) 2 2 = [\<lparr>Size = 3, Owner = 1\<rparr>]"
    "sa_playerTurn ex_sa_placed = 1"
    by (simp_all add: ex_sa_placed_def wf_board_def out_of_bounds_def count_of_def
        top_blocks_def cell_def)
  from standalone_accepts_sizes_outside_domain [of 4 2 2 ex_net_placed ex_sa_placed 1] a
  show ?thesis by simp
qed

section \<open>The winner\<close>

lemma double_line_run_board: "board double_line_run = double_line_board"
  by (simp add: double_line_run_def double_line_board_def placePiece_def movePiece_def
      wrap64_def eval_simps)

lemma double_line_run_reachable: "net_reachable double_line_run"
  unfolding double_line_run_def by (intro net_place net_move net_init)

text \<open>
  C3 as stated fails where lines of both players are complete: \<^verbatim>\<open>checkWin\<close> returns the
  owner of the first such line it examines. The board below is reached in the networked
  terminal when player 1 moves the piece that covered a piece of player 2: row 1 belongs
  to player 1, and \<^verbatim>\<open>checkWin\<close> returns 2 for row 0.
\<close>

theorem checkWin_iff_counterexample:
  "net_reachable double_line_run \<and> board double_line_run = double_line_board \<and>
   ((1, 0), (1, 1), (1, 2)) \<in> set lines \<and>
   line_owned double_line_board ((1, 0), (1, 1), (1, 2)) 1 \<and>
   checkWin double_line_board = 2"
  using double_line_run_reachable double_line_run_board
  by (simp add: lines_def double_line_board_def eval_simps)

lemma checkLine_eq_iff:
  "p \<noteq> 0 \<Longrightarrow> checkLine a b c = p \<longleftrightarrow>
     a \<noteq> [] \<and> b \<noteq> [] \<and> c \<noteq> [] \<and> Owner (last a) = p \<and> Owner (last b) = p \<and> Owner (last c) = p"
  by (auto simp: checkLine_def)

lemma line_winner_eq_iff: "p \<noteq> 0 \<Longrightarrow> line_winner b l = p \<longleftrightarrow> line_owned b l p"
proof -
  assume p: "p \<noteq> 0"
  obtain r1 c1 r2 c2 r3 c3 where l: "l = ((r1, c1), (r2, c2), (r3, c3))"
    by (cases l) auto
  show ?thesis unfolding l using checkLine_eq_iff [OF p] by auto
qed

lemma checkWin_first_line: "checkWin b = first_line_winner b"
  by (simp add: checkWin_unfold first_line_winner_def lines_def Let_def)

lemma find_SomeD: "find P xs = Some x \<Longrightarrow> x \<in> set xs \<and> P x"
  by (induction xs) (auto split: if_splits)

lemma first_line_winner_cases:
  "(first_line_winner b = 0 \<and> (\<forall>l \<in> set lines. line_winner b l = 0)) \<or>
   (first_line_winner b \<noteq> 0 \<and> (\<exists>l \<in> set lines. line_winner b l = first_line_winner b))"
proof (cases "find (\<lambda>l. line_winner b l \<noteq> 0) lines")
  case None
  then have "\<forall>l \<in> set lines. line_winner b l = 0"
    by (auto simp: find_None_iff)
  with None show ?thesis by (simp add: first_line_winner_def)
next
  case (Some l)
  from find_SomeD [OF Some] have "l \<in> set lines" "line_winner b l \<noteq> 0" by simp_all
  with Some show ?thesis by (auto simp: first_line_winner_def)
qed

text \<open>\<^verbatim>\<open>checkLine\<close> sees of its three stacks only whether they are empty and who owns the tops.\<close>

lemma checkLine_cong_tops:
  assumes "(a = []) = (a' = [])" "a \<noteq> [] \<Longrightarrow> Owner (last a) = Owner (last a')"
    and "(b = []) = (b' = [])" "b \<noteq> [] \<Longrightarrow> Owner (last b) = Owner (last b')"
    and "(c = []) = (c' = [])" "c \<noteq> [] \<Longrightarrow> Owner (last c) = Owner (last c')"
  shows "checkLine a b c = checkLine a' b' c'"
  using assms by (cases "a = []"; cases "b = []"; cases "c = []"; simp add: checkLine_def)

lemma top_owner_eqD:
  assumes "top_owner b r c = top_owner b' r c"
  shows "(cell b r c = []) = (cell b' r c = [])"
    and "cell b r c \<noteq> [] \<Longrightarrow> Owner (last (cell b r c)) = Owner (last (cell b' r c))"
  using assms by (auto simp: top_owner_def split: if_splits)

lemma checkLine_tops:
  assumes "top_owner b r1 c1 = top_owner b' r1 c1" "top_owner b r2 c2 = top_owner b' r2 c2"
    "top_owner b r3 c3 = top_owner b' r3 c3"
  shows "checkLine (cell b r1 c1) (cell b r2 c2) (cell b r3 c3)
       = checkLine (cell b' r1 c1) (cell b' r2 c2) (cell b' r3 c3)"
  by (rule checkLine_cong_tops) (rule top_owner_eqD [OF assms(1)] top_owner_eqD [OF assms(2)]
      top_owner_eqD [OF assms(3)], assumption?)+

lemma checkWin_same_top_owners:
  assumes "same_top_owners b b'"
  shows "checkWin b = checkWin b'"
proof -
  have t: "top_owner b r c = top_owner b' r c" if "r \<in> {0, 1, 2}" "c \<in> {0, 1, 2}" for r c
    using assms that unfolding same_top_owners_def by blast
  have l: "checkLine (cell b r1 c1) (cell b r2 c2) (cell b r3 c3)
       = checkLine (cell b' r1 c1) (cell b' r2 c2) (cell b' r3 c3)"
    if "r1 \<in> {0, 1, 2}" "c1 \<in> {0, 1, 2}" "r2 \<in> {0, 1, 2}" "c2 \<in> {0, 1, 2}"
      "r3 \<in> {0, 1, 2}" "c3 \<in> {0, 1, 2}" for r1 c1 r2 c2 r3 c3
    using that by (intro checkLine_tops t)
  have e: "checkLine (cell b 0 0) (cell b 0 1) (cell b 0 2)
            = checkLine (cell b' 0 0) (cell b' 0 1) (cell b' 0 2)"
    "checkLine (cell b 0 0) (cell b 1 0) (cell b 2 0)
      = checkLine (cell b' 0 0) (cell b' 1 0) (cell b' 2 0)"
    "checkLine (cell b 1 0) (cell b 1 1) (cell b 1 2)
      = checkLine (cell b' 1 0) (cell b' 1 1) (cell b' 1 2)"
    "checkLine (cell b 0 1) (cell b 1 1) (cell b 2 1)
      = checkLine (cell b' 0 1) (cell b' 1 1) (cell b' 2 1)"
    "checkLine (cell b 2 0) (cell b 2 1) (cell b 2 2)
      = checkLine (cell b' 2 0) (cell b' 2 1) (cell b' 2 2)"
    "checkLine (cell b 0 2) (cell b 1 2) (cell b 2 2)
      = checkLine (cell b' 0 2) (cell b' 1 2) (cell b' 2 2)"
    "checkLine (cell b 0 0) (cell b 1 1) (cell b 2 2)
      = checkLine (cell b' 0 0) (cell b' 1 1) (cell b' 2 2)"
    "checkLine (cell b 0 2) (cell b 1 1) (cell b 2 0)
      = checkLine (cell b' 0 2) (cell b' 1 1) (cell b' 2 0)"
    by (rule l; simp)+
  show ?thesis
    unfolding checkWin_unfold e by (rule refl)
qed

lemma cell_resize:
  assumes "wf_board b" "r \<in> {0, 1, 2}" "c \<in> {0, 1, 2}"
  shows "cell (resize f b) r c = map (\<lambda>g. g\<lparr>Size := f g\<rparr>) (cell b r c)"
proof -
  have lr: "nat r < length b" using assms by (auto simp: wf_board_def)
  then have "b ! nat r \<in> set b" by simp
  then have "length (b ! nat r) = 3" using assms by (simp add: wf_board_def list_all_iff)
  then have "nat c < length (b ! nat r)" using assms by auto
  with lr show ?thesis by (simp add: cell_def resize_def)
qed

lemma top_owner_resize:
  "wf_board b \<Longrightarrow> r \<in> {0, 1, 2} \<Longrightarrow> c \<in> {0, 1, 2} \<Longrightarrow> top_owner (resize f b) r c = top_owner b r c"
  by (simp add: top_owner_def cell_resize last_map)

lemma same_top_owners_resize: "wf_board b \<Longrightarrow> same_top_owners (resize f b) b"
  unfolding same_top_owners_def by (intro ballI top_owner_resize)

lemma first_line_winner_owned:
  assumes "first_line_winner b \<noteq> 0"
  shows "\<exists>l \<in> set lines. line_owned b l (first_line_winner b)"
proof -
  from first_line_winner_cases [of b] assms
  obtain l where l: "l \<in> set lines" and w: "line_winner b l = first_line_winner b"
    by blast
  from w assms have "line_owned b l (first_line_winner b)"
    by (simp add: line_winner_eq_iff [symmetric])
  with l show ?thesis by blast
qed

lemma first_line_winner_zero:
  assumes "first_line_winner b = 0" "l \<in> set lines" "line_owned b l q"
  shows "q = 0"
proof (rule ccontr)
  assume q: "q \<noteq> 0"
  with assms(3) have "line_winner b l = q" by (simp add: line_winner_eq_iff)
  moreover from first_line_winner_cases [of b] assms(1,2) have "line_winner b l = 0" by blast
  ultimately show False using q by simp
qed

text \<open>
  C3, amended: \<^verbatim>\<open>checkWin\<close> returns the owner of the first line, in its scan order (row 0,
  column 0, row 1, column 1, row 2, column 2, the two diagonals), whose three cells are
  non-empty with tops of one non-zero owner, and 0 when there is no such line. So a
  non-zero result \<open>p\<close> is the owner of the tops of some line; the result is 0 exactly when
  no line has three tops of one non-zero owner; and when every such line belongs to the
  same player \<open>p\<close> the result is \<open>p\<close>. The result depends only on which cells are empty
  and on the owners of the tops: replacing the sizes of the pieces anywhere on a 3x3 board
  does not change it.
\<close>

theorem checkWin_first_owned_line:
  "checkWin b = first_line_winner b \<and>
   (p \<noteq> 0 \<and> checkWin b = p \<longrightarrow> (\<exists>l \<in> set lines. line_owned b l p)) \<and>
   (checkWin b = 0 \<longleftrightarrow> (\<forall>l \<in> set lines. \<forall>q. line_owned b l q \<longrightarrow> q = 0)) \<and>
   (p \<noteq> 0 \<and> (\<exists>l \<in> set lines. line_owned b l p) \<and>
    (\<forall>l \<in> set lines. \<forall>q. line_owned b l q \<longrightarrow> q = 0 \<or> q = p) \<longrightarrow> checkWin b = p) \<and>
   (same_top_owners b b' \<longrightarrow> checkWin b = checkWin b') \<and>
   (wf_board b \<longrightarrow> checkWin (resize f b) = checkWin b)"
proof -
  let ?w = "first_line_winner b"
  have 1: "checkWin b = ?w" by (rule checkWin_first_line)
  have 2: "p \<noteq> 0 \<and> checkWin b = p \<longrightarrow> (\<exists>l \<in> set lines. line_owned b l p)"
    using first_line_winner_owned [of b] unfolding 1 by blast
  have 3: "checkWin b = 0 \<longleftrightarrow> (\<forall>l \<in> set lines. \<forall>q. line_owned b l q \<longrightarrow> q = 0)"
  proof
    assume "checkWin b = 0"
    then have "?w = 0" unfolding 1 .
    then show "\<forall>l \<in> set lines. \<forall>q. line_owned b l q \<longrightarrow> q = 0"
      by (blast intro: first_line_winner_zero)
  next
    assume a: "\<forall>l \<in> set lines. \<forall>q. line_owned b l q \<longrightarrow> q = 0"
    show "checkWin b = 0"
    proof (rule ccontr)
      assume "checkWin b \<noteq> 0"
      then have nz: "?w \<noteq> 0" unfolding 1 .
      from first_line_winner_owned [OF nz] a nz show False by blast
    qed
  qed
  have 4: "p \<noteq> 0 \<and> (\<exists>l \<in> set lines. line_owned b l p) \<and>
    (\<forall>l \<in> set lines. \<forall>q. line_owned b l q \<longrightarrow> q = 0 \<or> q = p) \<longrightarrow> checkWin b = p"
  proof (intro impI; elim conjE bexE)
    fix l assume p: "p \<noteq> 0" and l: "l \<in> set lines" and o: "line_owned b l p"
      and only: "\<forall>l \<in> set lines. \<forall>q. line_owned b l q \<longrightarrow> q = 0 \<or> q = p"
    have nz: "?w \<noteq> 0"
    proof
      assume "?w = 0"
      from first_line_winner_zero [OF this l o] p show False by simp
    qed
    from first_line_winner_owned [OF nz] only nz have "?w = p" by blast
    then show "checkWin b = p" unfolding 1 .
  qed
  have 5: "same_top_owners b b' \<longrightarrow> checkWin b = checkWin b'"
    by (simp add: checkWin_same_top_owners)
  have 6: "wf_board b \<longrightarrow> checkWin (resize f b) = checkWin b"
    by (simp add: checkWin_same_top_owners same_top_owners_resize)
  from 1 2 3 4 5 6 show ?thesis by blast
qed

text \<open>
  The witness: row 0 holds tops of player 1 of sizes 1, 2 and 3, and no other line is
  complete; \<^verbatim>\<open>checkWin\<close> returns 1, also after the sizes are replaced by \<open>4 - size\<close>.
\<close>

theorem checkWin_first_owned_line_witness:
  "((0, 0), (0, 1), (0, 2)) \<in> set lines \<and>
   line_owned scenario_c_board ((0, 0), (0, 1), (0, 2)) 1 \<and>
   checkWin scenario_c_board = 1 \<and> first_line_winner scenario_c_board = 1 \<and>
   wf_board scenario_c_board \<and>
   checkWin (resize (\<lambda>g. 4 - Size g) scenario_c_board) = 1"
proof -
  have l: "((0, 0), (0, 1), (0, 2)) \<in> set lines"
    by (simp add: lines_def)
  have o: "line_owned scenario_c_board ((0, 0), (0, 1), (0, 2)) 1"
    by (simp add: scenario_c_board_def cell_def)
  have only: "\<forall>l \<in> set lines. \<forall>q. line_owned scenario_c_board l q \<longrightarrow> q = 0 \<or> q = 1"
    by (simp add: lines_def scenario_c_board_def cell_def)
  have wf: "wf_board scenario_c_board"
    by (simp add: wf_board_def scenario_c_board_def)
  from l o have ex: "\<exists>l \<in> set lines. line_owned scenario_c_board l 1" by blast
  from checkWin_first_owned_line [of scenario_c_board 1
      "resize (\<lambda>g. 4 - Size g) scenario_c_board" "\<lambda>g. 4 - Size g"] ex only wf
  have "checkWin scenario_c_board = 1 \<and> first_line_winner scenario_c_board = 1 \<and>
      checkWin (resize (\<lambda>g. 4 - Size g) scenario_c_board) = 1"
    by simp
  with l o wf show ?thesis by simp
qed

section \<open>The round trip of a snapshot\<close>

lemma unmarshal_marshal_Gobblet:
  "int64 (Size g) \<Longrightarrow> int64 (Owner g) \<Longrightarrow> unmarshal_Gobblet (marshal_Gobblet g) = Inr g"
  by (simp add: marshal_Gobblet_def)

lemma all_or_error_Gobblets:
  "\<forall>g \<in> set st. int64 (Size g) \<and> int64 (Owner g) \<Longrightarrow>
   all_or_error (map unmarshal_Gobblet (map marshal_Gobblet st)) = Inr st"
  by (induction st) (simp_all add: unmarshal_marshal_Gobblet)

lemma unmarshal_marshal_Stack:
  "\<forall>g \<in> set st. int64 (Size g) \<and> int64 (Owner g) \<Longrightarrow>
   unmarshal_Stack (marshal_Stack isnil st) = Inr st"
  using all_or_error_Gobblets [of st] by (auto simp: marshal_Stack_def)

lemma upt_3: "[0..<3] = [0, 1, 2]"
  by (simp add: upt_rec)

lemma length_3E:
  assumes "length xs = 3"
  obtains a b c where "xs = [a, b, c]"
proof -
  from assms obtain a ys where xs: "xs = a # ys" and "length ys = 2"
    by (cases xs) auto
  then obtain b zs where ys: "ys = b # zs" and "length zs = 1"
    by (cases ys) auto
  then obtain c where "zs = [c]"
    by (cases zs) auto
  with xs ys show ?thesis by (intro that [of a b c]) simp
qed

lemma unmarshal_marshal_row:
  assumes len: "length row = 3"
    and ok: "\<forall>st \<in> set row. \<forall>g \<in> set st. int64 (Size g) \<and> int64 (Owner g)"
  shows "unmarshal_row (marshal_row isnil row) = Inr row"
proof -
  from len obtain a b c where row: "row = [a, b, c]" by (rule length_3E)
  from ok have "unmarshal_Stack (marshal_Stack (isnil 0) a) = Inr a"
    "unmarshal_Stack (marshal_Stack (isnil (Suc 0)) b) = Inr b"
    "unmarshal_Stack (marshal_Stack (isnil 2) c) = Inr c"
    unfolding row by (simp_all add: unmarshal_marshal_Stack)
  then show ?thesis
    unfolding row unmarshal_row_def marshal_row_def by (simp add: upt_3)
qed

lemma row_pieces:
  "list_all P (pieces b) \<Longrightarrow> row \<in> set b \<Longrightarrow> \<forall>st \<in> set row. \<forall>g \<in> set st. P g"
  by (auto simp: pieces_def list_all_iff)

lemma unmarshal_marshal_Board:
  assumes wf: "wf_board b"
    and ok: "list_all (\<lambda>g. int64 (Size g) \<and> int64 (Owner g)) (pieces b)"
  shows "unmarshal_Board (marshal_Board isnil b) = Inr b"
proof -
  from wf have "length b = 3" by (simp add: wf_board_def)
  then obtain r0 r1 r2 where b: "b = [r0, r1, r2]" by (rule length_3E)
  have rows: "r0 \<in> set b" "r1 \<in> set b" "r2 \<in> set b" by (simp_all add: b)
  have len: "length r0 = 3" "length r1 = 3" "length r2 = 3"
    using wf rows by (auto simp: wf_board_def list_all_iff)
  have r: "unmarshal_row (marshal_row n r0) = Inr r0" "unmarshal_row (marshal_row n r1) = Inr r1"
    "unmarshal_row (marshal_row n r2) = Inr r2" for n
    using len row_pieces [OF ok rows(1)] row_pieces [OF ok rows(2)] row_pieces [OF ok rows(3)]
    by (simp_all add: unmarshal_marshal_row)
  show ?thesis
    unfolding unmarshal_Board_def marshal_Board_def b
    by (simp add: upt_3 r)
qed

lemma marshal_Board_not_null: "marshal_Board isnil b \<noteq> JNull"
  by (simp add: marshal_Board_def)

lemma json_round_trip:
  assumes "go_GameState state"
  shows "json_Unmarshal (json_Marshal isnil state) = Inr state"
proof -
  from assms have b: "unmarshal_Board (marshal_Board isnil (Board state)) = Inr (Board state)"
    and i: "int64 (PlayerTurn state)" "int64 (Winner state)"
    by (simp_all add: go_GameState_def unmarshal_marshal_Board)
  then show ?thesis
    by (simp add: json_Marshal_def marshal_Board_not_null)
qed

lemma int64_wrap64: "int64 (wrap64 x)"
proof -
  have "0 \<le> (x + 2 ^ 63) mod (2 ^ 64 :: int)" "(x + 2 ^ 63) mod (2 ^ 64 :: int) < 2 ^ 64"
    by simp_all
  moreover have "(2 :: int) ^ 64 = 2 ^ 63 + 2 ^ 63" by simp
  ultimately show ?thesis unfolding int64_def wrap64_def by simp
qed

lemma all_pieces_set_cell:
  "list_all P (pieces b) \<Longrightarrow> \<forall>g \<in> set st. P g \<Longrightarrow> list_all P (pieces (set_cell b r c st))"
  by (auto simp: list_all_iff dest!: pieces_set_cell)

lemma all_pieces_cell:
  "list_all P (pieces b) \<Longrightarrow> wf_board b \<Longrightarrow> \<not> out_of_bounds r c \<Longrightarrow> g \<in> set (cell b r c) \<Longrightarrow> P g"
  by (auto simp: list_all_iff dest!: cell_pieces)

lemma all_pieces_placed:
  assumes "list_all P (pieces b)" "wf_board b" "\<not> out_of_bounds row col" "P g"
  shows "list_all P (pieces (set_cell b row col (cell b row col @ [g])))"
  using assms by (intro all_pieces_set_cell) (auto dest: all_pieces_cell)

lemma all_pieces_moved:
  assumes ok: "list_all P (pieces b)" and wf: "wf_board b" and src: "\<not> out_of_bounds fr fc"
    and dst: "\<not> out_of_bounds tr tc" and ne: "cell b fr fc \<noteq> []"
  shows "list_all P (pieces (set_cell (set_cell b fr fc (butlast (cell b fr fc))) tr tc
           (cell (set_cell b fr fc (butlast (cell b fr fc))) tr tc @ [last (cell b fr fc)])))"
proof -
  let ?b1 = "set_cell b fr fc (butlast (cell b fr fc))"
  have ok1: "list_all P (pieces ?b1)"
    using ok wf src by (intro all_pieces_set_cell) (auto dest: all_pieces_cell in_set_butlastD)
  have wf1: "wf_board ?b1" using wf by (rule wf_board_set_cell)
  have "last (cell b fr fc) \<in> set (cell b fr fc)" using ne by simp
  with ok wf src have top: "P (last (cell b fr fc))" by (rule all_pieces_cell)
  show ?thesis
  proof (rule all_pieces_set_cell)
    show "list_all P (pieces ?b1)" by (rule ok1)
    show "\<forall>g \<in> set (cell ?b1 tr tc @ [last (cell b fr fc)]). P g"
      using ok1 wf1 dst top by (auto dest: all_pieces_cell)
  qed
qed

text \<open>A non-zero result of \<^verbatim>\<open>checkWin\<close> is the owner of a piece on the board.\<close>

lemma line_in_bounds:
  "((r1, c1), (r2, c2), (r3, c3)) \<in> set lines \<Longrightarrow> \<not> out_of_bounds r1 c1"
  by (auto simp: lines_def out_of_bounds_def)

lemma checkWin_owner:
  assumes wf: "wf_board b" and nz: "checkWin b \<noteq> 0"
  shows "\<exists>g \<in> set (pieces b). Owner g = checkWin b"
proof -
  from nz have "first_line_winner b \<noteq> 0" by (simp add: checkWin_first_line)
  from first_line_winner_owned [OF this]
  obtain l where l: "l \<in> set lines" and o: "line_owned b l (checkWin b)"
    by (auto simp: checkWin_first_line)
  obtain r1 c1 r2 c2 r3 c3 where l': "l = ((r1, c1), (r2, c2), (r3, c3))"
    by (cases l) auto
  from l l' have inb: "\<not> out_of_bounds r1 c1" by (auto dest: line_in_bounds)
  from o l' have ne: "cell b r1 c1 \<noteq> []" and ow: "Owner (last (cell b r1 c1)) = checkWin b"
    by simp_all
  from ne have "last (cell b r1 c1) \<in> set (cell b r1 c1)" by simp
  with wf inb have "last (cell b r1 c1) \<in> set (pieces b)" by (rule cell_pieces)
  with ow show ?thesis by blast
qed

lemma go_GameState_snapshot:
  assumes "wf_board b" "list_all (\<lambda>g. int64 (Size g) \<and> int64 (Owner g)) (pieces b)" "int64 p"
  shows "go_GameState \<lparr>Board = b, PlayerTurn = p, Winner = checkWin b\<rparr>"
proof -
  have "int64 (checkWin b)"
  proof (cases "checkWin b = 0")
    case True
    then show ?thesis by (simp add: int64_def)
  next
    case False
    from checkWin_owner [OF assms(1) False] assms(2) show ?thesis
      by (auto simp: list_all_iff)
  qed
  with assms show ?thesis by (simp add: go_GameState_def)
qed

lemma int64_small: "1 \<le> n \<Longrightarrow> n \<le> 3 \<Longrightarrow> int64 n"
  by (simp add: int64_def)

lemma placePiece_go_values:
  assumes inv: "wf_board (board s) \<and>
      list_all (\<lambda>g. int64 (Size g) \<and> int64 (Owner g)) (pieces (board s)) \<and>
      int64 (playerTurn s) \<and> (\<forall>snap \<in> set (published s). go_GameState snap)"
    and p: "placePiece row col sz s = (ok, s')"
  shows "wf_board (board s') \<and>
      list_all (\<lambda>g. int64 (Size g) \<and> int64 (Owner g)) (pieces (board s')) \<and>
      int64 (playerTurn s') \<and> (\<forall>snap \<in> set (published s'). go_GameState snap)"
proof (cases ok)
  case False
  with p have "s' = s" by (simp add: placePiece_rejected)
  with inv show ?thesis by simp
next
  case True
  with p have a: "placePiece row col sz s = (True, s')" by simp
  note acc = placePiece_accepted [OF a]
  have wf: "wf_board (board s')" using inv acc(2) by (simp add: wf_board_set_cell)
  have pc: "list_all (\<lambda>g. int64 (Size g) \<and> int64 (Owner g)) (pieces (board s'))"
    using inv acc(1) unfolding acc(2)
    by (intro all_pieces_placed) (simp_all add: int64_small)
  have t0: "int64 (playerTurn s)" using inv by simp
  have t1: "int64 (wrap64 (3 - playerTurn s))" by (rule int64_wrap64)
  have turn: "int64 (playerTurn s')" using acc(3) t0 t1 by simp
  have s0: "go_GameState \<lparr>Board = board s', PlayerTurn = playerTurn s, Winner = checkWin (board s')\<rparr>"
    using wf pc t0 by (rule go_GameState_snapshot)
  have s1: "go_GameState \<lparr>Board = board s', PlayerTurn = wrap64 (3 - playerTurn s),
      Winner = checkWin (board s')\<rparr>"
    using wf pc t1 by (rule go_GameState_snapshot)
  have "\<forall>snap \<in> set (published s'). go_GameState snap"
    unfolding acc(4) using inv s0 s1 by (auto split: if_splits)
  with wf pc turn show ?thesis by simp
qed

lemma movePiece_go_values:
  assumes inv: "wf_board (board s) \<and>
      list_all (\<lambda>g. int64 (Size g) \<and> int64 (Owner g)) (pieces (board s)) \<and>
      int64 (playerTurn s) \<and> (\<forall>snap \<in> set (published s). go_GameState snap)"
    and m: "movePiece fr fc tr tc s = (ok, s')"
  shows "wf_board (board s') \<and>
      list_all (\<lambda>g. int64 (Size g) \<and> int64 (Owner g)) (pieces (board s')) \<and>
      int64 (playerTurn s') \<and> (\<forall>snap \<in> set (published s'). go_GameState snap)"
proof (cases ok)
  case False
  with m have "s' = s" by (simp add: movePiece_rejected)
  with inv show ?thesis by simp
next
  case True
  with m have a: "movePiece fr fc tr tc s = (True, s')" by simp
  note acc = movePiece_accepted [OF a]
  have wf: "wf_board (board s')" using inv acc(2) by (simp add: wf_board_set_cell)
  have pc: "list_all (\<lambda>g. int64 (Size g) \<and> int64 (Owner g)) (pieces (board s'))"
    using inv acc(1) unfolding acc(2)
    by (intro all_pieces_moved) simp_all
  have t0: "int64 (playerTurn s)" using inv by simp
  have t1: "int64 (wrap64 (3 - playerTurn s))" by (rule int64_wrap64)
  have turn: "int64 (playerTurn s')" using acc(3) t0 t1 by simp
  have s0: "go_GameState \<lparr>Board = board s', PlayerTurn = playerTurn s, Winner = checkWin (board s')\<rparr>"
    using wf pc t0 by (rule go_GameState_snapshot)
  have s1: "go_GameState \<lparr>Board = board s', PlayerTurn = wrap64 (3 - playerTurn s),
      Winner = checkWin (board s')\<rparr>"
    using wf pc t1 by (rule go_GameState_snapshot)
  have "\<forall>snap \<in> set (published s'). go_GameState snap"
    unfolding acc(4) using inv s0 s1 by (auto split: if_splits)
  with wf pc turn show ?thesis by simp
qed

lemma init_go_values:
  "wf_board (board init_net) \<and>
   list_all (\<lambda>g. int64 (Size g) \<and> int64 (Owner g)) (pieces (board init_net)) \<and>
   int64 (playerTurn init_net) \<and> (\<forall>snap \<in> set (published init_net). go_GameState snap)"
  by (simp add: init_net_def wf_board_def empty_board_def pieces_def int64_def)

lemma net_reachable_go_values:
  "net_reachable s \<Longrightarrow>
   wf_board (board s) \<and>
   list_all (\<lambda>g. int64 (Size g) \<and> int64 (Owner g)) (pieces (board s)) \<and>
   int64 (playerTurn s) \<and> (\<forall>snap \<in> set (published s). go_GameState snap)"
proof (induction rule: net_reachable.induct)
  case net_init
  show ?case by (rule init_go_values)
next
  case net_fresh
  have "go_GameState \<lparr>Board = board init_net, PlayerTurn = playerTurn init_net,
      Winner = checkWin (board init_net)\<rparr>"
    using init_go_values by (intro go_GameState_snapshot) simp_all
  with init_go_values show ?case by simp
next
  case (net_place s row col sz)
  have "placePiece row col sz s = (fst (placePiece row col sz s), snd (placePiece row col sz s))"
    by simp
  with net_place.IH show ?case by (rule placePiece_go_values)
next
  case (net_move s fromRow fromCol toRow toCol)
  have "movePiece fromRow fromCol toRow toCol s =
      (fst (movePiece fromRow fromCol toRow toCol s), snd (movePiece fromRow fromCol toRow toCol s))"
    by simp
  with net_move.IH show ?case by (rule movePiece_go_values)
qed

text \<open>
  C7: for every value \<open>state\<close> of the Go type \<^verbatim>\<open>GameState\<close>, and so for every snapshot
  published in a run of local actions from a fresh session (the all-empty board
  included), decoding the encoded snapshot gives the snapshot back, whichever empty
  stacks are nil slices. On receipt of such a payload \<^verbatim>\<open>onMessageReceived\<close> adopts the
  board and the turn of the snapshot.
\<close>

theorem snapshot_round_trip:
  "(go_GameState state \<longrightarrow> json_Unmarshal (json_Marshal isnil state) = Inr state) \<and>
   (net_reachable s \<and> snap \<in> set (published s) \<longrightarrow>
      go_GameState snap \<and> json_Unmarshal (json_Marshal isnil snap) = Inr snap) \<and>
   (go_GameState state \<and> Winner state = 0 \<longrightarrow>
      onMessageReceived (json_Marshal isnil state) r =
        Updated (r\<lparr>board := Board state, playerTurn := PlayerTurn state\<rparr>)) \<and>
   (go_GameState state \<and> Winner state \<noteq> 0 \<longrightarrow>
      onMessageReceived (json_Marshal isnil state) r =
        Exited (Winner state) (r\<lparr>board := Board state, playerTurn := PlayerTurn state\<rparr>))"
proof -
  have 1: "go_GameState state \<longrightarrow> json_Unmarshal (json_Marshal isnil state) = Inr state"
    by (simp add: json_round_trip)
  have 2: "net_reachable s \<and> snap \<in> set (published s) \<longrightarrow>
      go_GameState snap \<and> json_Unmarshal (json_Marshal isnil snap) = Inr snap"
    using net_reachable_go_values [of s] by (auto simp: json_round_trip)
  have 3: "go_GameState state \<and> Winner state = 0 \<longrightarrow>
      onMessageReceived (json_Marshal isnil state) r =
        Updated (r\<lparr>board := Board state, playerTurn := PlayerTurn state\<rparr>)"
    by (simp add: onMessageReceived_def json_round_trip)
  have 4: "go_GameState state \<and> Winner state \<noteq> 0 \<longrightarrow>
      onMessageReceived (json_Marshal isnil state) r =
        Exited (Winner state) (r\<lparr>board := Board state, playerTurn := PlayerTurn state\<rparr>)"
    by (simp add: onMessageReceived_def json_round_trip)
  from 1 2 3 4 show ?thesis by blast
qed

lemmas json_eval = json_Marshal_def marshal_Board_def marshal_row_def marshal_Stack_def
  marshal_Gobblet_def unmarshal_Board_def unmarshal_row_def upt_3 int64_def

lemma go_snaps: "go_GameState snap_full" "go_GameState snap_cover" "go_GameState snap_won"
  by (simp_all add: go_GameState_def snap_full_def snap_cover_def snap_won_def full_board_def
      ex_uncovered_board_def ex_won_board_def wf_board_def pieces_def int64_def)

lemma fresh_published: "published (saveGameState init_net) = [snap_empty]"
  by (simp add: snap_empty_def init_net_def empty_board_def eval_simps)

text \<open>
  The witness: the snapshot of the all-empty board published for a fresh session, whose
  cells are nil slices; a board with a piece moved away from (0,2) (an empty slice) and a
  covered piece moved from (0,0) to (1,1); a full board; and a snapshot with a winner.
\<close>

theorem snapshot_round_trip_witness:
  "net_reachable (saveGameState init_net) \<and> published (saveGameState init_net) = [snap_empty] \<and>
   json_Marshal (\<lambda>i j. True) snap_empty = json_empty \<and>
   json_Unmarshal json_empty = Inr snap_empty \<and>
   json_Marshal (\<lambda>i j. (i, j) \<noteq> (0, 2)) snap_cover = json_cover \<and>
   json_Unmarshal json_cover = Inr snap_cover \<and>
   json_Unmarshal (json_Marshal (\<lambda>i j. False) snap_full) = Inr snap_full \<and>
   onMessageReceived json_cover init_net
     = Updated \<lparr>board = ex_uncovered_board, playerTurn = 2, published = []\<rparr> \<and>
   onMessageReceived (json_Marshal (\<lambda>i j. True) snap_won) init_net
     = Exited 1 \<lparr>board = ex_won_board, playerTurn = 1, published = []\<rparr>"
proof -
  have e: "json_Marshal (\<lambda>i j. True) snap_empty = json_empty"
    by (simp add: snap_empty_def json_empty_def empty_board_def json_eval)
  have c: "json_Marshal (\<lambda>i j. (i, j) \<noteq> (0, 2)) snap_cover = json_cover"
    by (simp add: snap_cover_def json_cover_def ex_uncovered_board_def json_eval)
  have m: "snap_empty \<in> set (published (saveGameState init_net))"
    unfolding fresh_published by simp
  have w: "Winner snap_cover = 0" "Winner snap_won = 1" "Board snap_cover = ex_uncovered_board"
    "PlayerTurn snap_cover = 2" "Board snap_won = ex_won_board" "PlayerTurn snap_won = 1"
    by (simp_all add: snap_cover_def snap_won_def)
  from snapshot_round_trip [of snap_full "\<lambda>i j. False" "saveGameState init_net" snap_empty init_net]
    snapshot_round_trip [of snap_cover "\<lambda>i j. (i, j) \<noteq> (0, 2)" "saveGameState init_net"
      snap_empty init_net]
    snapshot_round_trip [of snap_won "\<lambda>i j. True" "saveGameState init_net" snap_empty init_net]
    net_fresh fresh_published go_snaps e c m w
  show ?thesis by (simp add: init_net_def)
qed

end
